(* ===== verification/Go_Prelude.thy ===== *)
theory Go_Prelude
  imports
    Main
    "HOL-Library.AList"
    "HOL-Library.DAList"
    "HOL-Library.Char_ord"
    "HOL-Library.List_Lexorder"
    "HOL-Library.Sublist"
begin

text \<open>
  What the components share: Go strings as byte lists with the operations of the package
  \<open>strings\<close> the broker calls, Go maps with string keys, results that are an error or a
  value, and the lemma collections the component proofs draw on.

  \<^item> A Go \<open>string\<close> is a sequence of bytes, here a \<^typ>\<open>string\<close> (a character is one
    byte), so \<^const>\<open>length\<close> is Go's \<open>len\<close>.
  \<^item> A Go \<open>map[string]V\<close> is a \<open>'v gomap\<close>: an association list with distinct keys. The
    order of the list is the (unspecified) order in which a \<open>range\<close> loop visits the map,
    so a statement about every \<open>'v gomap\<close> is a statement about every iteration order.
    Two values that represent the same map agree on \<open>gm_lookup\<close>.
  \<^item> A Go function with an \<open>error\<close> result is a function into \<open>'e + 'a\<close>, \<^const>\<open>Inl\<close>
    being the error.
\<close>

named_theorems result_iff \<open>when a composed result is a success\<close>
named_theorems gm_simps \<open>lookups in maps built by loops\<close>

section \<open>Results\<close>

definition bind_r :: "'e + 'a \<Rightarrow> ('a \<Rightarrow> 'e + 'b) \<Rightarrow> 'e + 'b" where
  "bind_r m f = (case m of Inl e \<Rightarrow> Inl e | Inr x \<Rightarrow> f x)"

definition map_err :: "('e \<Rightarrow> 'd) \<Rightarrow> 'e + 'a \<Rightarrow> 'd + 'a" where
  "map_err g m = (case m of Inl e \<Rightarrow> Inl (g e) | Inr x \<Rightarrow> Inr x)"

fun map_r :: "('a \<Rightarrow> 'e + 'b) \<Rightarrow> 'a list \<Rightarrow> 'e + 'b list" where
  "map_r f [] = Inr []"
| "map_r f (x # xs) = bind_r (f x) (\<lambda>y. bind_r (map_r f xs) (\<lambda>ys. Inr (y # ys)))"

fun each_r :: "('a \<Rightarrow> 'e + unit) \<Rightarrow> 'a list \<Rightarrow> 'e + unit" where
  "each_r f [] = Inr ()"
| "each_r f (x # xs) = bind_r (f x) (\<lambda>_. each_r f xs)"

lemma bind_r_simps [simp]:
  "bind_r (Inl e) f = Inl e"
  "bind_r (Inr x) f = f x"
  by (simp_all add: bind_r_def)

lemma map_err_simps [simp]:
  "map_err g (Inl e) = Inl (g e)"
  "map_err g (Inr x) = Inr x"
  by (simp_all add: map_err_def)

lemma bind_r_Inr_iff [result_iff]: "bind_r m f = Inr y \<longleftrightarrow> (\<exists>x. m = Inr x \<and> f x = Inr y)"
  by (cases m) auto

lemma bind_r_Inl_iff: "bind_r m f = Inl e \<longleftrightarrow> m = Inl e \<or> (\<exists>x. m = Inr x \<and> f x = Inl e)"
  by (cases m) auto

lemma map_err_Inr_iff [result_iff]: "map_err g m = Inr y \<longleftrightarrow> m = Inr y"
  by (cases m) auto

lemma map_r_Inr_iff [result_iff]: "map_r f xs = Inr ys \<longleftrightarrow> list_all2 (\<lambda>x y. f x = Inr y) xs ys"
  by (induction xs arbitrary: ys) (auto simp: result_iff list_all2_Cons1)

lemma each_r_Inr_iff [result_iff]: "each_r f xs = Inr u \<longleftrightarrow> (\<forall>x\<in>set xs. f x = Inr ())"
  by (induction xs) (auto simp: result_iff)

lemma case_option_Inr_iff: "(case m of None \<Rightarrow> Inl e | Some x \<Rightarrow> f x) = Inr y \<longleftrightarrow> (\<exists>x. m = Some x \<and> f x = Inr y)"
  by (simp split: option.split)

lemma if_Inl_Inr_iff [result_iff]: "(if b then Inl e else r) = Inr y \<longleftrightarrow> \<not> b \<and> r = Inr y"
  by simp

lemma list_all2_unique:
  assumes "list_all2 R xs ys" and "list_all2 R xs zs" and "\<And>x y z. R x y \<Longrightarrow> R x z \<Longrightarrow> y = z"
  shows "ys = zs"
  using assms(1,2)
proof (induction xs ys arbitrary: zs rule: list_all2_induct)
  case Nil
  then show ?case by simp
next
  case (Cons x xs y ys)
  then obtain z zs' where "zs = z # zs'" "R x z" "list_all2 R xs zs'" by (auto simp: list_all2_Cons1)
  with Cons.IH Cons.hyps assms(3) show ?case by blast
qed

lemma list_all2_in_right: "list_all2 R xs ys \<Longrightarrow> y \<in> set ys \<Longrightarrow> \<exists>x\<in>set xs. R x y"
  by (induction rule: list_all2_induct) auto

lemma list_all2_map_eq: "list_all2 R xs ys \<Longrightarrow> (\<And>x y. R x y \<Longrightarrow> g y = f x) \<Longrightarrow> map g ys = map f xs"
  by (induction rule: list_all2_induct) auto

section \<open>Strings\<close>

text \<open>\<open>strings.HasPrefix\<close>, \<open>HasSuffix\<close>, \<open>TrimPrefix\<close> and \<open>CutPrefix\<close>.\<close>

definition has_prefix :: "string \<Rightarrow> string \<Rightarrow> bool" where
  "has_prefix s p = prefix p s"

definition has_suffix :: "string \<Rightarrow> string \<Rightarrow> bool" where
  "has_suffix s p = suffix p s"

definition trim_prefix :: "string \<Rightarrow> string \<Rightarrow> string" where
  "trim_prefix s p = (if prefix p s then drop (length p) s else s)"

definition cut_prefix :: "string \<Rightarrow> string \<Rightarrow> string option" where
  "cut_prefix s p = (if prefix p s then Some (drop (length p) s) else None)"

text \<open>\<open>strings.Index\<close> and \<open>strings.LastIndex\<close> of a one-byte separator, \<open>strings.Cut\<close>.\<close>

fun index_of :: "char \<Rightarrow> string \<Rightarrow> nat option" where
  "index_of c [] = None"
| "index_of c (x # xs) = (if x = c then Some 0 else map_option Suc (index_of c xs))"

fun last_index_of :: "char \<Rightarrow> string \<Rightarrow> nat option" where
  "last_index_of c [] = None"
| "last_index_of c (x # xs) =
     (case last_index_of c xs of Some i \<Rightarrow> Some (Suc i) | None \<Rightarrow> if x = c then Some 0 else None)"

definition cut_at :: "char \<Rightarrow> string \<Rightarrow> (string \<times> string) option" where
  "cut_at c s = (case index_of c s of None \<Rightarrow> None | Some i \<Rightarrow> Some (take i s, drop (Suc i) s))"

text \<open>\<open>strings.Join\<close>.\<close>

fun join_with :: "string \<Rightarrow> string list \<Rightarrow> string" where
  "join_with sep [] = ''''"
| "join_with sep [s] = s"
| "join_with sep (s # t # ts) = s @ sep @ join_with sep (t # ts)"

text \<open>\<open>strings.ToLower\<close> on ASCII; the broker only compares its result with its argument.\<close>

definition is_upper_ascii :: "char \<Rightarrow> bool" where
  "is_upper_ascii c = (CHR ''A'' \<le> c \<and> c \<le> CHR ''Z'')"

lemma index_of_None_iff [simp]: "index_of c s = None \<longleftrightarrow> c \<notin> set s"
  by (induction s) auto

lemma index_of_append:
  "c \<notin> set u \<Longrightarrow> index_of c (u @ c # v) = Some (length u)"
  by (induction u) auto

lemma index_of_Some_iff:
  "index_of c s = Some i \<longleftrightarrow> i < length s \<and> s ! i = c \<and> c \<notin> set (take i s)"
proof (induction s arbitrary: i)
  case Nil
  then show ?case by simp
next
  case (Cons x s)
  then show ?case by (cases i) auto
qed

lemma index_of_split: "index_of c s = Some i \<Longrightarrow> s = take i s @ c # drop (Suc i) s"
  by (auto simp: index_of_Some_iff id_take_nth_drop)

lemma last_index_of_None_iff [simp]: "last_index_of c s = None \<longleftrightarrow> c \<notin> set s"
  by (induction s) (auto split: option.splits)

lemma last_index_of_append:
  "c \<notin> set v \<Longrightarrow> last_index_of c (u @ c # v) = Some (length u)"
  by (induction u) (auto split: option.splits)

lemma last_index_of_less: "last_index_of c s = Some i \<Longrightarrow> i < length s \<and> s ! i = c"
  by (induction s arbitrary: i) (auto split: option.splits if_splits)

lemma cut_at_append: "c \<notin> set u \<Longrightarrow> cut_at c (u @ c # v) = Some (u, v)"
  by (simp add: cut_at_def index_of_append)

lemma cut_at_Some_iff: "cut_at c s = Some (u, v) \<longleftrightarrow> s = u @ c # v \<and> c \<notin> set u"
proof
  assume "cut_at c s = Some (u, v)"
  then obtain i where i: "index_of c s = Some i" "u = take i s" "v = drop (Suc i) s"
    by (auto simp: cut_at_def split: option.splits)
  from index_of_split [OF i(1)] i show "s = u @ c # v \<and> c \<notin> set u"
    by (simp add: index_of_Some_iff)
qed (simp add: cut_at_append)

lemma cut_at_None_iff: "cut_at c s = None \<longleftrightarrow> c \<notin> set s"
  by (cases "index_of c s") (auto simp: cut_at_def simp flip: index_of_None_iff)

lemma has_prefix_append [simp]: "has_prefix (p @ s) p"
  by (simp add: has_prefix_def)

lemma cut_prefix_append [simp]: "cut_prefix (p @ s) p = Some s"
  by (simp add: cut_prefix_def)

lemma cut_prefix_Some_iff: "cut_prefix s p = Some r \<longleftrightarrow> s = p @ r"
  by (auto simp: cut_prefix_def prefix_def)

lemma cut_prefix_None_iff: "cut_prefix s p = None \<longleftrightarrow> (\<forall>r. s \<noteq> p @ r)"
  by (auto simp: cut_prefix_def prefix_def)

section \<open>Go maps with string keys\<close>

type_synonym 'v gomap = "(string, 'v) alist"

abbreviation gm_entries :: "'v gomap \<Rightarrow> (string \<times> 'v) list" where
  "gm_entries m \<equiv> DAList.impl_of m"

abbreviation gm_lookup :: "'v gomap \<Rightarrow> string \<Rightarrow> 'v option" where
  "gm_lookup m k \<equiv> DAList.lookup m k"

abbreviation gm_put :: "string \<Rightarrow> 'v \<Rightarrow> 'v gomap \<Rightarrow> 'v gomap" where
  "gm_put k v m \<equiv> DAList.update k v m"

abbreviation gm_empty :: "'v gomap" where
  "gm_empty \<equiv> DAList.empty"

definition gm_keys :: "'v gomap \<Rightarrow> string list" where
  "gm_keys m = map fst (gm_entries m)"

definition gm_len :: "'v gomap \<Rightarrow> nat" where
  "gm_len m = length (gm_entries m)"

text \<open>The map a Go composite literal \<open>map[string]V{k: v, ...}\<close> denotes.\<close>

definition gm_of :: "(string \<times> 'v) list \<Rightarrow> 'v gomap" where
  "gm_of kvs = fold (\<lambda>(k, v). gm_put k v) kvs gm_empty"

text \<open>
  The loop \<open>for k, v := range m { ... continue ...; out[k] = w }\<close> that writes a map under
  the keys of another: \<open>f k v old\<close> is the value stored under \<open>k\<close>, given the entry
  \<open>old = out[k]\<close> before, or \<^const>\<open>None\<close> if the body skips the key.
\<close>

definition gm_merge :: "(string \<Rightarrow> 'v \<Rightarrow> 'w option \<Rightarrow> 'w option) \<Rightarrow> 'v gomap \<Rightarrow> 'w gomap \<Rightarrow> 'w gomap" where
  "gm_merge f m out =
     fold (\<lambda>(k, v) out. case f k v (gm_lookup out k) of None \<Rightarrow> out | Some w \<Rightarrow> gm_put k w out)
       (gm_entries m) out"

text \<open>The same loop filling a fresh map, where the body does not read \<open>out\<close>.\<close>

definition gm_collect :: "(string \<Rightarrow> 'v \<Rightarrow> 'w option) \<Rightarrow> 'v gomap \<Rightarrow> 'w gomap" where
  "gm_collect f m = gm_merge (\<lambda>k v _. f k v) m gm_empty"

lemma gm_lookup_put [simp]: "gm_lookup (gm_put k v m) k' = (if k' = k then Some v else gm_lookup m k')"
  by transfer (simp add: update_conv')

lemma gm_lookup_empty [simp]: "gm_lookup gm_empty k = None"
  by transfer simp

lemma gm_distinct [simp]: "distinct (map fst (gm_entries m))"
  by transfer simp

lemma gm_lookup_conv: "gm_lookup m k = map_of (gm_entries m) k"
  by transfer simp

lemma gm_lookup_iff_entry: "gm_lookup m k = Some v \<longleftrightarrow> (k, v) \<in> set (gm_entries m)"
  by (simp add: gm_lookup_conv)

lemma gm_lookup_None_iff: "gm_lookup m k = None \<longleftrightarrow> k \<notin> set (gm_keys m)"
  by (simp add: gm_lookup_conv gm_keys_def map_of_eq_None_iff)

lemma gm_entries_empty [simp]: "gm_entries gm_empty = []"
  by transfer simp

lemma gm_entries_put: "gm_entries (gm_put k v m) = AList.update k v (gm_entries m)"
  by transfer simp

lemma gm_keys_distinct [simp]: "distinct (gm_keys m)"
  by (simp add: gm_keys_def)

lemma gm_len_keys: "gm_len m = length (gm_keys m)"
  by (simp add: gm_len_def gm_keys_def)

lemma gm_keys_dom: "set (gm_keys m) = dom (gm_lookup m)"
  by (auto simp: gm_keys_def gm_lookup_conv dom_map_of_conv_image_fst)

lemma gm_finite_dom [simp]: "finite (dom (gm_lookup m))"
  by (simp flip: gm_keys_dom)

lemma gm_len_card: "gm_len m = card (dom (gm_lookup m))"
  by (metis gm_len_keys gm_keys_dom gm_keys_distinct distinct_card)

lemma gm_len_0_iff: "gm_len m = 0 \<longleftrightarrow> gm_lookup m = Map.empty"
  by (simp add: gm_len_card dom_eq_empty_conv)

lemma gm_forall_entries:
  "list_all (\<lambda>(k, v). P k v) (gm_entries m) \<longleftrightarrow> (\<forall>k v. gm_lookup m k = Some v \<longrightarrow> P k v)"
  by (auto simp: list_all_iff gm_lookup_iff_entry)


lemma gm_lookup_of [gm_simps]: "gm_lookup (gm_of kvs) k = map_of (rev kvs) k"
  by (induction kvs rule: rev_induct) (auto simp: gm_of_def split: prod.splits)

lemma gm_entries_of: "distinct (map fst kvs) \<Longrightarrow> gm_entries (gm_of kvs) = kvs"
proof (induction kvs rule: rev_induct)
  case Nil
  then show ?case by (simp add: gm_of_def)
next
  case (snoc x xs)
  have "AList.update (fst x) (snd x) xs = xs @ [x]"
    using snoc.prems by (induction xs) auto
  with snoc show ?case by (cases x) (simp add: gm_of_def gm_entries_put)
qed

lemma gm_lookup_merge_list:
  assumes "distinct (map fst kvs)"
  shows "gm_lookup (fold (\<lambda>(k, v) out. case f k v (gm_lookup out k) of
      None \<Rightarrow> out | Some w \<Rightarrow> gm_put k w out) kvs out) k
    = (case map_of kvs k of
         None \<Rightarrow> gm_lookup out k
       | Some v \<Rightarrow> (case f k v (gm_lookup out k) of None \<Rightarrow> gm_lookup out k | Some w \<Rightarrow> Some w))"
  using assms
proof (induction kvs arbitrary: out)
  case Nil
  then show ?case by simp
next
  case (Cons kv kvs)
  obtain k0 v0 where kv: "kv = (k0, v0)" by force
  have "map_of kvs k0 = None"
    using Cons.prems kv by (simp add: map_of_eq_None_iff)
  then show ?case
    using Cons.IH Cons.prems kv by (auto split: option.splits)
qed

lemma gm_lookup_merge [gm_simps]:
  "gm_lookup (gm_merge f m out) k =
    (case gm_lookup m k of
       None \<Rightarrow> gm_lookup out k
     | Some v \<Rightarrow> (case f k v (gm_lookup out k) of None \<Rightarrow> gm_lookup out k | Some w \<Rightarrow> Some w))"
  unfolding gm_merge_def gm_lookup_conv [of m] by (rule gm_lookup_merge_list) simp

lemma gm_lookup_collect [gm_simps]:
  "gm_lookup (gm_collect f m) k = (case gm_lookup m k of None \<Rightarrow> None | Some v \<Rightarrow> f k v)"
  by (auto simp: gm_collect_def gm_lookup_merge split: option.splits)

end
