(* ===== verification/Perm.thy ===== *)
theory Perm
  imports Go_Prelude
begin

text \<open>
  The package \<open>internal/perm\<close>: the permission lattice \<open>read < write < admin\<close>, the generated
  catalog of permission keys, and the operations on permission maps. A permission map is a
  \<^typ>\<open>string gomap\<close> from keys to levels; unknown keys and levels can occur in it, since it
  may come from a configuration or from GitHub.

  The locales \<open>coverage\<close> and \<open>grant_join\<close> state what the policy engine and the
  configuration rely on when they merge grants; they are interpreted on
  \<open>Satisfies\<close> and \<open>mergePermissions\<close> (theory \<open>Policy_Engine\<close>) and on the loop of
  \<open>AggregateGrantPermissions\<close> (theory \<open>Config\<close>).
\<close>

section \<open>The catalog\<close>

type_synonym perms = "string gomap"

definition levels :: "(string \<times> nat) list" where
  "levels = [(''read'', 1), (''write'', 2), (''admin'', 3)]"

definition Catalog :: "(string \<times> string list) list" where
  "Catalog = [
    (''actions'', [''read'', ''write'']),
    (''actions_variables'', [''read'', ''write'']),
    (''administration'', [''read'', ''write'']),
    (''agent_secrets'', [''read'', ''write'']),
    (''agent_variables'', [''read'', ''write'']),
    (''artifact_metadata'', [''read'', ''write'']),
    (''attestations'', [''read'', ''write'']),
    (''blocking'', [''read'', ''write'']),
    (''checks'', [''read'', ''write'']),
    (''code_quality'', [''read'', ''write'']),
    (''codespaces'', [''read'', ''write'']),
    (''codespaces_lifecycle_admin'', [''read'', ''write'']),
    (''codespaces_metadata'', [''read'']),
    (''codespaces_secrets'', [''write'']),
    (''codespaces_user_secrets'', [''read'', ''write'']),
    (''contents'', [''read'', ''write'']),
    (''copilot_agent_settings'', [''read'']),
    (''custom_properties_for_organizations'', [''read'', ''write'']),
    (''dependabot_secrets'', [''read'', ''write'']),
    (''deployments'', [''read'', ''write'']),
    (''discussions'', [''read'', ''write'']),
    (''email_addresses'', [''read'', ''write'']),
    (''emails'', [''read'', ''write'']),
    (''enterprise_ai_controls'', [''read'', ''write'']),
    (''enterprise_billing'', [''read'', ''write'']),
    (''enterprise_copilot_metrics'', [''read'']),
    (''enterprise_copilot_usage'', [''read'']),
    (''enterprise_credentials'', [''read'', ''write'']),
    (''enterprise_custom_enterprise_roles'', [''read'', ''write'']),
    (''enterprise_custom_properties'', [''read'', ''write'']),
    (''enterprise_custom_properties_for_organizations'', [''read'', ''write'', ''admin'']),
    (''enterprise_innersource_vulnerabilities'', [''write'']),
    (''enterprise_licensing'', [''read'', ''write'']),
    (''enterprise_organization_installation_repositories'', [''read'', ''write'']),
    (''enterprise_organization_installations'', [''read'', ''write'']),
    (''enterprise_scim'', [''read'', ''write'']),
    (''enterprise_teams'', [''read'', ''write'']),
    (''environments'', [''read'', ''write'']),
    (''followers'', [''read'', ''write'']),
    (''gists'', [''write'']),
    (''git_signing_ssh_public_keys'', [''read'', ''write'']),
    (''git_ssh_keys'', [''read'', ''write'']),
    (''gpg_keys'', [''read'', ''write'']),
    (''interaction_limits'', [''read'', ''write'']),
    (''issue_fields'', [''read'', ''write'']),
    (''issue_types'', [''read'', ''write'']),
    (''issues'', [''read'', ''write'']),
    (''keys'', [''read'', ''write'']),
    (''members'', [''read'', ''write'']),
    (''merge_queues'', [''read'', ''write'']),
    (''metadata'', [''read'', ''write'']),
    (''org_copilot_content_exclusion'', [''read'', ''write'']),
    (''organization_actions_variables'', [''read'', ''write'']),
    (''organization_administration'', [''read'', ''write'']),
    (''organization_agent_secrets'', [''read'', ''write'']),
    (''organization_agent_variables'', [''read'', ''write'']),
    (''organization_announcement_banners'', [''read'', ''write'']),
    (''organization_api_insights'', [''read'']),
    (''organization_campaigns'', [''read'', ''write'']),
    (''organization_code_scanning_dismissal_requests'', [''read'', ''write'']),
    (''organization_codespaces'', [''read'', ''write'']),
    (''organization_codespaces_secrets'', [''read'', ''write'']),
    (''organization_codespaces_settings'', [''write'']),
    (''organization_copilot_agent_settings'', [''read'', ''write'']),
    (''organization_copilot_metrics'', [''read'']),
    (''organization_copilot_seat_management'', [''read'', ''write'']),
    (''organization_copilot_spaces'', [''read'', ''write'']),
    (''organization_custom_org_roles'', [''read'', ''write'']),
    (''organization_custom_properties'', [''read'', ''write'', ''admin'']),
    (''organization_custom_roles'', [''read'', ''write'']),
    (''organization_dependabot_dismissal_requests'', [''read'', ''write'']),
    (''organization_dependabot_secrets'', [''read'', ''write'']),
    (''organization_events'', [''read'']),
    (''organization_external_properties_for_repos'', [''read'', ''write'', ''admin'']),
    (''organization_hooks'', [''read'', ''write'']),
    (''organization_network_configurations'', [''read'', ''write'']),
    (''organization_packages'', [''read'', ''write'']),
    (''organization_personal_access_token_requests'', [''read'', ''write'']),
    (''organization_personal_access_tokens'', [''read'', ''write'']),
    (''organization_plan'', [''read'']),
    (''organization_private_registries'', [''read'', ''write'']),
    (''organization_projects'', [''read'', ''write'', ''admin'']),
    (''organization_runner_custom_images'', [''read'', ''write'']),
    (''organization_secret_scanning_bypass_requests'', [''read'', ''write'']),
    (''organization_secrets'', [''read'', ''write'']),
    (''organization_self_hosted_runners'', [''read'', ''write'']),
    (''organization_user_blocking'', [''read'', ''write'']),
    (''packages'', [''read'', ''write'']),
    (''pages'', [''read'', ''write'']),
    (''plan'', [''read'']),
    (''private_repository_invitations'', [''read'']),
    (''profile'', [''write'']),
    (''pull_requests'', [''read'', ''write'']),
    (''repo_secret_scanning_dismissal_requests'', [''read'', ''write'']),
    (''repository_advisories'', [''read'', ''write'']),
    (''repository_creation'', [''write'']),
    (''repository_custom_properties'', [''read'', ''write'']),
    (''repository_hooks'', [''read'', ''write'']),
    (''repository_projects'', [''read'', ''write'', ''admin'']),
    (''secret_scanning_alerts'', [''read'', ''write'']),
    (''secret_scanning_bypass_requests'', [''read'', ''write'']),
    (''secret_scanning_dismissal_requests'', [''read'', ''write'']),
    (''secrets'', [''read'', ''write'']),
    (''security_events'', [''read'', ''write'']),
    (''single_file'', [''read'', ''write'']),
    (''starring'', [''read'', ''write'']),
    (''statuses'', [''read'', ''write'']),
    (''vulnerability_alerts'', [''read'', ''write'']),
    (''watching'', [''read'']),
    (''workflows'', [''write''])]"

section \<open>Operations\<close>

definition ValidKey :: "string \<Rightarrow> bool" where
  "ValidKey k = (map_of Catalog k \<noteq> None)"

definition ValidLevel :: "string \<Rightarrow> bool" where
  "ValidLevel l = (map_of levels l \<noteq> None)"

text \<open>The Go expression \<open>levels[l]\<close> is the zero value 0 for an unknown level.\<close>

definition LevelOrd :: "string \<Rightarrow> nat" where
  "LevelOrd l = (case map_of levels l of None \<Rightarrow> 0 | Some n \<Rightarrow> n)"

text \<open>
  The loop ranges over \<open>levels\<close>; the numbers are distinct, so the order does not matter.
\<close>

definition levelName :: "nat \<Rightarrow> string" where
  "levelName n = (case find (\<lambda>(name, v). v = n) levels of None \<Rightarrow> '''' | Some (name, _) \<Rightarrow> name)"

definition Normalize :: "perms \<Rightarrow> perms" where
  "Normalize inp =
     gm_collect (\<lambda>k v. if \<not> ValidKey k then None else if \<not> ValidLevel v then None else Some v) inp"

text \<open>The inner loop of \<open>Intersect\<close>: \<^const>\<open>None\<close> when some input lacks the key.\<close>

fun minLevelIn :: "string \<Rightarrow> nat \<Rightarrow> perms list \<Rightarrow> nat option" where
  "minLevelIn k minLevel [] = Some minLevel"
| "minLevelIn k minLevel (other # others) =
     (case gm_lookup other k of
        None \<Rightarrow> None
      | Some ov \<Rightarrow> minLevelIn k (if LevelOrd ov < minLevel then LevelOrd ov else minLevel) others)"

definition Intersect :: "perms list \<Rightarrow> perms" where
  "Intersect inputs =
     (case map Normalize inputs of
        [] \<Rightarrow> gm_empty
      | n0 # others \<Rightarrow>
          gm_collect (\<lambda>k v. map_option levelName (minLevelIn k (LevelOrd v) others)) n0)"

definition Satisfies :: "perms \<Rightarrow> perms \<Rightarrow> bool" where
  "Satisfies required granted =
     (let g = Normalize granted in
      list_all (\<lambda>(k, v). case gm_lookup g k of
          None \<Rightarrow> False
        | Some gv \<Rightarrow> \<not> LevelOrd gv < LevelOrd v) (gm_entries (Normalize required)))"

text \<open>\<^const>\<open>None\<close> is the \<open>nil\<close> map returned when nothing is missing.\<close>

definition Gaps :: "perms \<Rightarrow> perms \<Rightarrow> string gomap option" where
  "Gaps required granted =
     (let g = Normalize granted;
          gaps = gm_collect (\<lambda>k v. case gm_lookup g k of
              None \<Rightarrow> Some (''need '' @ v @ '', not granted'')
            | Some gv \<Rightarrow> if LevelOrd gv < LevelOrd v then Some (''need '' @ v @ '', have '' @ gv)
                else None) (Normalize required)
      in if gm_len gaps = 0 then None else Some gaps)"

definition ValidKeyLevel :: "string \<Rightarrow> string \<Rightarrow> bool" where
  "ValidKeyLevel k level =
     (case map_of Catalog k of None \<Rightarrow> False | Some allowed \<Rightarrow> list_ex (\<lambda>l. l = level) allowed)"

lemma catalog_levels: "list_all (\<lambda>(k, ls). list_all ValidLevel ls) Catalog"
  by code_simp

lemma ValidKeyLevel_ValidLevel: "ValidKeyLevel k v \<Longrightarrow> ValidLevel v"
  using catalog_levels by (fastforce simp: ValidKeyLevel_def list_all_iff list_ex_iff split: option.splits dest: map_of_SomeD)

section \<open>The lattice of levels\<close>

lemma ValidLevel_iff: "ValidLevel l \<longleftrightarrow> l \<in> {''read'', ''write'', ''admin''}"
  by (auto simp: ValidLevel_def levels_def)

lemma LevelOrd_pos_iff: "0 < LevelOrd l \<longleftrightarrow> ValidLevel l"
  by (auto simp: ValidLevel_def LevelOrd_def levels_def)

lemma LevelOrd_0_iff: "LevelOrd l = 0 \<longleftrightarrow> \<not> ValidLevel l"
  by (simp flip: LevelOrd_pos_iff)

lemma LevelOrd_invalid: "\<not> ValidLevel l \<Longrightarrow> LevelOrd l = 0"
  by (simp add: LevelOrd_0_iff)

lemma LevelOrd_le_3: "LevelOrd l \<le> 3"
  by (auto simp: LevelOrd_def levels_def)

lemma levelName_valid: "0 < n \<Longrightarrow> n \<le> 3 \<Longrightarrow> ValidLevel (levelName n) \<and> LevelOrd (levelName n) = n"
  by (auto simp: le_Suc_eq numeral_3_eq_3 ValidLevel_def levelName_def LevelOrd_def levels_def)

lemma LevelOrd_inj: "ValidLevel l \<Longrightarrow> LevelOrd l = LevelOrd l' \<Longrightarrow> l = l'"
  by (auto simp: ValidLevel_def LevelOrd_def levels_def split: if_splits)

lemma levelName_LevelOrd: "ValidLevel l \<Longrightarrow> levelName (LevelOrd l) = l"
  by (auto simp: ValidLevel_iff levelName_def LevelOrd_def levels_def)

lemma foldl_min_ge_iff: "r \<le> foldl min m xs \<longleftrightarrow> r \<le> m \<and> (\<forall>x\<in>set xs. r \<le> x)"
  for m :: nat
  by (induction xs arbitrary: m) auto

section \<open>Normalised maps and coverage\<close>

lemma lookup_Normalize [gm_simps]:
  "gm_lookup (Normalize m) k =
    (case gm_lookup m k of
       None \<Rightarrow> None
     | Some v \<Rightarrow> if ValidKey k \<and> ValidLevel v then Some v else None)"
  by (auto simp: Normalize_def gm_simps split: option.splits)

lemma Normalize_Some_iff:
  "gm_lookup (Normalize m) k = Some v \<longleftrightarrow> gm_lookup m k = Some v \<and> ValidKey k \<and> ValidLevel v"
  by (auto simp: lookup_Normalize split: option.splits if_splits)

text \<open>The level a map really gives for a key: 0 when the key is absent or not canonical.\<close>

definition level_at :: "perms \<Rightarrow> string \<Rightarrow> nat" where
  "level_at m k = (case gm_lookup (Normalize m) k of None \<Rightarrow> 0 | Some v \<Rightarrow> LevelOrd v)"

lemma level_at_pos_iff: "0 < level_at m k \<longleftrightarrow> gm_lookup (Normalize m) k \<noteq> None"
  by (auto simp: level_at_def lookup_Normalize LevelOrd_pos_iff split: option.splits if_splits)

lemma level_at_Some: "gm_lookup (Normalize m) k = Some v \<Longrightarrow> level_at m k = LevelOrd v"
  by (simp add: level_at_def)

lemma Normalize_pos: "gm_lookup (Normalize m) k = Some v \<Longrightarrow> 0 < LevelOrd v"
  by (simp add: Normalize_Some_iff LevelOrd_pos_iff)

lemma Satisfies_iff_level:
  "Satisfies required granted \<longleftrightarrow> (\<forall>k. level_at required k \<le> level_at granted k)"
proof -
  have "(case gm_lookup (Normalize granted) k of None \<Rightarrow> False
      | Some gv \<Rightarrow> \<not> LevelOrd gv < LevelOrd v) \<longleftrightarrow> LevelOrd v \<le> level_at granted k"
    if "gm_lookup (Normalize required) k = Some v" for k v
  proof -
    from that have "0 < LevelOrd v" by (simp add: Normalize_Some_iff LevelOrd_pos_iff)
    then show ?thesis by (auto simp: level_at_def split: option.splits)
  qed
  then have "Satisfies required granted \<longleftrightarrow>
    (\<forall>k v. gm_lookup (Normalize required) k = Some v \<longrightarrow> LevelOrd v \<le> level_at granted k)"
    by (simp add: Satisfies_def gm_forall_entries)
  also have "\<dots> \<longleftrightarrow> (\<forall>k. level_at required k \<le> level_at granted k)"
    by (auto simp: level_at_def [of required] split: option.splits)
  finally show ?thesis .
qed

lemma Satisfies_refl: "Satisfies m m"
  by (simp add: Satisfies_iff_level)

lemma Satisfies_trans: "Satisfies a b \<Longrightarrow> Satisfies b c \<Longrightarrow> Satisfies a c"
  by (meson Satisfies_iff_level le_trans)

lemma Gaps_None_iff: "Gaps required granted = None \<longleftrightarrow> Satisfies required granted"
proof -
  let ?f = "\<lambda>k v. case gm_lookup (Normalize granted) k of
              None \<Rightarrow> Some (''need '' @ v @ '', not granted'')
            | Some gv \<Rightarrow> if LevelOrd gv < LevelOrd v then Some (''need '' @ v @ '', have '' @ gv)
                else None"
  have "Gaps required granted = None \<longleftrightarrow> (\<forall>k. gm_lookup (gm_collect ?f (Normalize required)) k = None)"
    by (simp add: Gaps_def Let_def gm_len_0_iff fun_eq_iff)
  also have "\<dots> \<longleftrightarrow> (\<forall>k v. gm_lookup (Normalize required) k = Some v \<longrightarrow> ?f k v = None)"
    by (auto simp: gm_lookup_collect split: option.splits)
  also have "\<dots> \<longleftrightarrow> Satisfies required granted"
    by (auto simp: Satisfies_def Let_def gm_forall_entries split: option.splits if_splits)
  finally show ?thesis .
qed

text \<open>Two normalised maps with the same levels are the same map.\<close>

lemma lookup_eq_level_at:
  assumes "\<And>k v. gm_lookup m k = Some v \<Longrightarrow> ValidKey k \<and> ValidLevel v"
    and "\<And>k v. gm_lookup n k = Some v \<Longrightarrow> ValidKey k \<and> ValidLevel v"
    and lev: "\<And>k. level_at m k = level_at n k"
  shows "gm_lookup m = gm_lookup n"
proof
  fix k
  have m: "gm_lookup (Normalize m) k = gm_lookup m k" and n: "gm_lookup (Normalize n) k = gm_lookup n k"
    using assms(1,2) [of k] by (auto simp: lookup_Normalize split: option.splits)
  show "gm_lookup m k = gm_lookup n k"
    using lev [of k] assms(1,2) [of k]
    by (auto simp: level_at_def m n LevelOrd_0_iff dest: LevelOrd_inj split: option.splits)
qed

section \<open>Intersection\<close>

lemma Intersect_Nil: "Intersect [] = gm_empty"
  by (simp add: Intersect_def)

lemma lookup_Intersect:
  "gm_lookup (Intersect (q # qs)) k =
    (case gm_lookup (Normalize q) k of
       None \<Rightarrow> None
     | Some v \<Rightarrow> map_option levelName (minLevelIn k (LevelOrd v) (map Normalize qs)))"
  by (simp add: Intersect_def gm_simps)

lemma minLevelIn_eq:
  "minLevelIn k m (map Normalize qs) =
    (if \<forall>q\<in>set qs. 0 < level_at q k then Some (foldl min m (map (\<lambda>q. level_at q k) qs)) else None)"
proof (induction qs arbitrary: m)
  case Nil
  then show ?case by simp
next
  case (Cons q qs)
  show ?case
  proof (cases "gm_lookup (Normalize q) k")
    case None
    then show ?thesis by (simp add: level_at_def)
  next
    case (Some v)
    then have "level_at q k = LevelOrd v" and "0 < LevelOrd v"
      by (simp_all add: level_at_Some Normalize_pos)
    moreover have "(if LevelOrd v < m then LevelOrd v else m) = min m (LevelOrd v)"
      by (simp add: min_def)
    ultimately show ?thesis using Some Cons.IH by simp
  qed
qed

lemma level_at_le_3: "level_at m k \<le> 3"
  by (simp add: level_at_def LevelOrd_le_3 split: option.split)

text \<open>The level of an intersection is the least of the levels, key by key.\<close>

lemma lookup_Intersect_level:
  fixes k q qs
  defines "n \<equiv> foldl min (level_at q k) (map (\<lambda>p. level_at p k) qs)"
  shows "gm_lookup (Intersect (q # qs)) k = (if 0 < n then Some (levelName n) else None)"
proof -
  have n: "0 < n \<longleftrightarrow> 0 < level_at q k \<and> (\<forall>p\<in>set qs. 0 < level_at p k)"
    using foldl_min_ge_iff [of 1 "level_at q k"] by (auto simp: n_def Suc_le_eq)
  show ?thesis
  proof (cases "gm_lookup (Normalize q) k")
    case None
    then have "level_at q k = 0" by (simp add: level_at_def)
    with None n show ?thesis by (simp add: lookup_Intersect)
  next
    case (Some v)
    moreover from Some have "level_at q k = LevelOrd v" and "0 < LevelOrd v"
      by (simp_all add: level_at_Some Normalize_pos)
    ultimately show ?thesis using n by (auto simp: lookup_Intersect minLevelIn_eq n_def)
  qed
qed

lemma Intersect_canonical:
  assumes "gm_lookup (Intersect qs) k = Some v"
  shows "ValidKey k \<and> ValidLevel v"
proof (cases qs)
  case Nil
  with assms show ?thesis by (simp add: Intersect_Nil)
next
  case (Cons q qs')
  let ?n = "foldl min (level_at q k) (map (\<lambda>p. level_at p k) qs')"
  have n: "0 < ?n" "v = levelName ?n"
    using assms by (auto simp: Cons lookup_Intersect_level split: if_splits)
  moreover have "?n \<le> level_at q k" using foldl_min_ge_iff [of ?n] by blast
  ultimately have "?n \<le> 3" and "0 < level_at q k" using level_at_le_3 [of q k] by auto
  with n levelName_valid show ?thesis
    by (auto simp: level_at_pos_iff Normalize_Some_iff)
qed

lemma level_at_Intersect:
  "level_at (Intersect (q # qs)) k = foldl min (level_at q k) (map (\<lambda>p. level_at p k) qs)"
proof -
  let ?n = "foldl min (level_at q k) (map (\<lambda>p. level_at p k) qs)"
  have le: "?n \<le> 3"
    using foldl_min_ge_iff [of ?n "level_at q k"] level_at_le_3 [of q k] by (meson le_refl le_trans)
  show ?thesis
  proof (cases "0 < ?n")
    case True
    then have look: "gm_lookup (Intersect (q # qs)) k = Some (levelName ?n)"
      by (simp add: lookup_Intersect_level)
    with Intersect_canonical [OF look] levelName_valid [OF True le] show ?thesis
      by (simp add: level_at_def lookup_Normalize)
  next
    case False
    then show ?thesis by (simp add: level_at_def lookup_Normalize lookup_Intersect_level)
  qed
qed

lemma Satisfies_Intersect_iff:
  "Satisfies r (Intersect (q # qs)) \<longleftrightarrow> (\<forall>p\<in>set (q # qs). Satisfies r p)"
  by (auto simp: Satisfies_iff_level level_at_Intersect foldl_min_ge_iff)

lemma Intersect_exact:
  assumes "Satisfies required granted"
  shows "gm_lookup (Intersect [required, granted]) = gm_lookup (Normalize required)"
proof (rule lookup_eq_level_at)
  fix k
  have "level_at (Normalize required) k = level_at required k"
    by (simp add: level_at_def lookup_Normalize split: option.splits)
  then show "level_at (Intersect [required, granted]) k = level_at (Normalize required) k"
    using assms by (simp add: level_at_Intersect Satisfies_iff_level min_absorb1)
qed (auto simp: Normalize_Some_iff dest: Intersect_canonical)

section \<open>The interfaces: coverage and merging of grants\<close>

text \<open>
  \<open>covers required granted\<close> is the preorder a request is decided with.
\<close>

locale coverage =
  fixes covers :: "'g \<Rightarrow> 'g \<Rightarrow> bool"
  assumes covers_refl: "covers a a"
    and covers_trans: "covers a b \<Longrightarrow> covers b c \<Longrightarrow> covers a c"

text \<open>
  A merge of a source into a destination that yields a least upper bound for \<open>covers\<close>,
  starting from an empty grant: the contract of every loop that accumulates grants.
\<close>

locale grant_join = coverage +
  fixes join :: "'g \<Rightarrow> 'g \<Rightarrow> 'g" and none :: "'g"
  assumes join_dest: "covers d (join d s)"
    and join_source: "covers s (join d s)"
    and join_least: "covers d c \<Longrightarrow> covers s c \<Longrightarrow> covers (join d s) c"
    and none_least: "covers none c"
begin

lemma foldl_dest: "covers d (foldl join d gs)"
proof (induction gs arbitrary: d)
  case Nil
  then show ?case by (simp add: covers_refl)
next
  case (Cons g gs)
  then show ?case by (auto intro: covers_trans join_dest)
qed

lemma foldl_upper: "g \<in> set gs \<Longrightarrow> covers g (foldl join d gs)"
proof (induction gs arbitrary: d)
  case Nil
  then show ?case by simp
next
  case (Cons g' gs)
  then show ?case by (auto intro: covers_trans join_source foldl_dest)
qed

lemma foldl_least: "covers d c \<Longrightarrow> \<forall>g\<in>set gs. covers g c \<Longrightarrow> covers (foldl join d gs) c"
  by (induction gs arbitrary: d) (auto intro: join_least)

lemma foldl_none_iff: "covers (foldl join none gs) c \<longleftrightarrow> (\<forall>g\<in>set gs. covers g c)"
  by (meson covers_trans foldl_least foldl_upper none_least)

lemma foldl_mono: "set gs \<subseteq> set hs \<Longrightarrow> covers (foldl join none gs) (foldl join none hs)"
  by (auto simp: foldl_none_iff intro: foldl_upper)

lemma foldl_order: "set gs = set hs \<Longrightarrow> covers (foldl join none gs) (foldl join none hs)"
  by (simp add: foldl_mono)

end


section \<open>Properties of the permission lattice\<close>

text \<open>C25. \<open>Intersect\<close> is the greatest lower bound of permission maps: a request is satisfied by the
  intersection of some maps exactly when every one of them satisfies it; the result names catalog
  keys and levels only, and intersecting a satisfied request with its ceiling gives the normalised
  request back.\<close>

theorem Intersect_glb:
  "(Satisfies r (Intersect (q # qs)) \<longleftrightarrow> list_all (Satisfies r) (q # qs)) \<and>
    list_all (\<lambda>(k, v). ValidKey k \<and> ValidLevel v) (gm_entries (Intersect (q # qs))) \<and>
    (Satisfies r q \<longrightarrow> gm_lookup (Intersect [r, q]) = gm_lookup (Normalize r))"
  using Satisfies_Intersect_iff [of r q qs] Intersect_exact [of r q] Intersect_canonical [of "q # qs"]
  by (auto simp: list_all_iff gm_lookup_iff_entry)

theorem Intersect_glb_witness:
  "gm_lookup (Intersect [gm_of [(''contents'', ''read''), (''nonsense'', ''read'')], gm_of [(''contents'', ''write'')]])
    = gm_lookup (Normalize (gm_of [(''contents'', ''read''), (''nonsense'', ''read'')]))"
proof -
  have "Satisfies (gm_of [(''contents'', ''read''), (''nonsense'', ''read'')]) (gm_of [(''contents'', ''write'')])"
    by code_simp
  then show ?thesis using Intersect_glb by blast
qed

text \<open>C26. \<open>Gaps\<close> and \<open>Satisfies\<close> agree: nothing is missing exactly when the request is satisfied,
  and otherwise the keys of the report are exactly the requested ones whose level is not reached.\<close>

theorem Gaps_exact:
  "(Gaps required granted = None \<longleftrightarrow> Satisfies required granted) \<and>
    (Satisfies required granted \<or> (\<exists>gaps. Gaps required granted = Some gaps \<and>
      dom (gm_lookup gaps) = {k. level_at granted k < level_at required k}))"
proof (cases "Gaps required granted")
  case None
  then show ?thesis using Gaps_None_iff [of required granted] by simp
next
  case (Some gaps)
  have "k \<in> dom (gm_lookup gaps) \<longleftrightarrow> level_at granted k < level_at required k" for k
    using Some Normalize_pos [of required k]
    by (auto simp: Gaps_def Let_def gm_lookup_collect level_at_def split: if_splits option.splits)
  then show ?thesis using Some Gaps_None_iff [of required granted] by auto
qed


end
