(* ===== verification/Go_Regexp.thy ===== *)
theory Go_Regexp
  imports Go_Prelude
begin

text \<open>
  The part of Go's package \<open>regexp\<close> the broker uses: whole-string matching against patterns
  \<open>^...$\<close> built from character classes, \<open>+\<close>, \<open>*\<close> and non-capturing groups. Go's \<open>$\<close>
  without the flag \<open>m\<close> is the end of the text, so a match of such a pattern is membership of
  the whole string in the language of the pattern. The classes are ASCII, and a byte of a
  multi-byte rune belongs to none of them, so matching bytes is matching runes.

  \<open>matches\<close> is the language, \<open>match_string\<close> the executable matcher (Brzozowski
  derivatives) the models call; the last section shows what the one shape of pattern the broker
  uses for logins and slugs accepts.
\<close>

datatype re =
    NoMatch
  | Eps
  | Class "(char \<times> char) list"
  | Cat re re
  | Alt re re
  | Star re

definition Plus :: "re \<Rightarrow> re" where
  "Plus r = Cat r (Star r)"

definition in_class :: "(char \<times> char) list \<Rightarrow> char \<Rightarrow> bool" where
  "in_class rs c = list_ex (\<lambda>(lo, hi). lo \<le> c \<and> c \<le> hi) rs"

inductive matches :: "re \<Rightarrow> string \<Rightarrow> bool" where
  m_eps: "matches Eps []"
| m_class: "in_class rs c \<Longrightarrow> matches (Class rs) [c]"
| m_cat: "matches r u \<Longrightarrow> matches s v \<Longrightarrow> matches (Cat r s) (u @ v)"
| m_alt1: "matches r u \<Longrightarrow> matches (Alt r s) u"
| m_alt2: "matches s u \<Longrightarrow> matches (Alt r s) u"
| m_star0: "matches (Star r) []"
| m_star1: "matches r u \<Longrightarrow> matches (Star r) v \<Longrightarrow> matches (Star r) (u @ v)"

inductive_simps matches_NoMatch [simp]: "matches NoMatch s"
inductive_simps matches_Eps [simp]: "matches Eps s"
inductive_simps matches_Class [simp]: "matches (Class rs) s"
inductive_simps matches_Cat: "matches (Cat r s) u"
inductive_simps matches_Alt [simp]: "matches (Alt r s) u"

fun nullable :: "re \<Rightarrow> bool" where
  "nullable NoMatch = False"
| "nullable Eps = True"
| "nullable (Class rs) = False"
| "nullable (Cat r s) = (nullable r \<and> nullable s)"
| "nullable (Alt r s) = (nullable r \<or> nullable s)"
| "nullable (Star r) = True"

fun deriv :: "char \<Rightarrow> re \<Rightarrow> re" where
  "deriv c NoMatch = NoMatch"
| "deriv c Eps = NoMatch"
| "deriv c (Class rs) = (if in_class rs c then Eps else NoMatch)"
| "deriv c (Cat r s) =
     (if nullable r then Alt (Cat (deriv c r) s) (deriv c s) else Cat (deriv c r) s)"
| "deriv c (Alt r s) = Alt (deriv c r) (deriv c s)"
| "deriv c (Star r) = Cat (deriv c r) (Star r)"

fun match_string :: "re \<Rightarrow> string \<Rightarrow> bool" where
  "match_string r [] = nullable r"
| "match_string r (c # s) = match_string (deriv c r) s"

section \<open>The matcher decides the language\<close>

lemma nullable_iff: "nullable r \<longleftrightarrow> matches r []"
  by (induction r) (auto simp: matches_Cat intro: matches.intros)

lemma matches_Star_Cons:
  assumes "matches (Star r) (c # s)"
  shows "\<exists>u v. s = u @ v \<and> matches r (c # u) \<and> matches (Star r) v"
proof -
  have "x = Star r \<Longrightarrow> t = c # s \<Longrightarrow> \<exists>u v. s = u @ v \<and> matches r (c # u) \<and> matches (Star r) v"
    if "matches x t" for x t
    using that
  proof (induction arbitrary: s rule: matches.induct)
    case (m_star1 r' u v)
    then show ?case by (cases u) auto
  qed simp_all
  then show ?thesis using assms by blast
qed

lemma matches_deriv: "matches (deriv c r) s \<longleftrightarrow> matches r (c # s)"
proof (induction r arbitrary: s)
  case (Cat r1 r2)
  show ?case
    by (auto simp: matches_Cat Cat nullable_iff Cons_eq_append_conv)
next
  case (Star r)
  then show ?case
    by (auto simp: matches_Cat dest: matches_Star_Cons intro: m_star1 [where u = "c # _", simplified])
qed auto

theorem match_string_iff: "match_string r s \<longleftrightarrow> matches r s"
  by (induction s arbitrary: r) (simp_all add: nullable_iff matches_deriv)

section \<open>Words separated by single hyphens\<close>

text \<open>The pattern \<open>^C+(?:-C+)*$\<close> for a character class \<open>C\<close>.\<close>

definition hyphenated :: "(char \<times> char) list \<Rightarrow> re" where
  "hyphenated rs =
     Cat (Plus (Class rs)) (Star (Cat (Class [(CHR ''-'', CHR ''-'')]) (Plus (Class rs))))"

text \<open>
  The same strings by a left-to-right scan; the flag says that the last character was one of the
  class, so that a hyphen may follow and the string may end.
\<close>

fun hyphen_scan :: "(char \<Rightarrow> bool) \<Rightarrow> bool \<Rightarrow> string \<Rightarrow> bool" where
  "hyphen_scan C b [] = b"
| "hyphen_scan C b (c # s) =
     (if C c then hyphen_scan C True s else c = CHR ''-'' \<and> b \<and> hyphen_scan C False s)"

definition hyphen_tail :: "(char \<Rightarrow> bool) \<Rightarrow> string \<Rightarrow> bool" where
  "hyphen_tail C t = (case t of [] \<Rightarrow> True | c # t' \<Rightarrow> c = CHR ''-'' \<and> hyphen_scan C False t')"

lemma hyphen_tail_simps [simp]:
  "hyphen_tail C []"
  "hyphen_tail C (c # t) \<longleftrightarrow> c = CHR ''-'' \<and> hyphen_scan C False t"
  by (simp_all add: hyphen_tail_def)

lemma matches_Star_Class: "matches (Star (Class rs)) w \<longleftrightarrow> (\<forall>c\<in>set w. in_class rs c)"
proof (induction w)
  case Nil
  show ?case by (simp add: m_star0)
next
  case (Cons c w)
  then show ?case
    by (auto dest: matches_Star_Cons intro: m_star1 [of "Class rs" "[c]", simplified])
qed

lemma matches_Cat_Class [simp]:
  "matches (Cat (Class rs) r) s \<longleftrightarrow> (\<exists>c s'. s = c # s' \<and> in_class rs c \<and> matches r s')"
  by (auto simp: matches_Cat) (metis append_Cons append_Nil)

lemma in_class_single [simp]: "in_class [(d, d)] c \<longleftrightarrow> c = d"
  by (auto simp: in_class_def)

lemma matches_Plus_Class:
  "matches (Plus (Class rs)) w \<longleftrightarrow> w \<noteq> [] \<and> (\<forall>c\<in>set w. in_class rs c)"
  by (cases w) (auto simp: Plus_def matches_Star_Class)

lemma hyphen_scan_split:
  assumes "\<not> C (CHR ''-'')"
  shows "hyphen_scan C b s \<longleftrightarrow>
    (\<exists>u t. s = u @ t \<and> (\<forall>c\<in>set u. C c) \<and> (u \<noteq> [] \<or> b) \<and> hyphen_tail C t)"
proof (induction s arbitrary: b)
  case Nil
  then show ?case by auto
next
  case (Cons c s)
  show ?case
  proof (cases "C c")
    case True
    show ?thesis (is "?l \<longleftrightarrow> (\<exists>u t. ?P u t)")
    proof
      assume ?l
      then obtain u t where "s = u @ t" "\<forall>c\<in>set u. C c" "hyphen_tail C t"
        using True Cons.IH [of True] by auto
      then have "?P (c # u) t" using True by simp
      then show "\<exists>u t. ?P u t" by blast
    next
      assume "\<exists>u t. ?P u t"
      then obtain u t where P: "?P u t" by blast
      then obtain u' where "u = c # u'"
        using True assms by (cases u) auto
      with P True Cons.IH [of True] show ?l by auto
    qed
  next
    case False
    then have "c # s = u @ t \<and> (\<forall>c\<in>set u. C c) \<longleftrightarrow> u = [] \<and> t = c # s" for u t
      by (cases u) auto
    then have "(\<exists>u t. c # s = u @ t \<and> (\<forall>c\<in>set u. C c) \<and> (u \<noteq> [] \<or> b) \<and> hyphen_tail C t)
      \<longleftrightarrow> b \<and> hyphen_tail C (c # s)"
      by metis
    with False show ?thesis by auto
  qed
qed

lemma matches_hyphen_tail:
  assumes "\<not> in_class rs (CHR ''-'')"
  shows "matches (Star (Cat (Class [(CHR ''-'', CHR ''-'')]) (Plus (Class rs)))) t
    \<longleftrightarrow> hyphen_tail (in_class rs) t" (is "matches (Star ?X) t \<longleftrightarrow> _")
proof (induction t rule: length_induct)
  case (1 t)
  note IH = this
  show ?case
  proof (cases t)
    case Nil
    then show ?thesis by (simp add: m_star0)
  next
    case (Cons c t')
    have "matches (Star ?X) (c # t') \<longleftrightarrow>
      (\<exists>u v. t' = u @ v \<and> matches ?X (c # u) \<and> matches (Star ?X) v)"
      by (metis append_Cons m_star1 matches_Star_Cons)
    also have "\<dots> \<longleftrightarrow> (\<exists>u v. t' = u @ v \<and> matches ?X (c # u) \<and> hyphen_tail (in_class rs) v)"
      using IH Cons by (metis (no_types, lifting) length_Cons length_append less_Suc_eq_le le_add2)
    also have "\<dots> \<longleftrightarrow> hyphen_tail (in_class rs) (c # t')"
      using hyphen_scan_split [of "in_class rs" False t', OF assms]
      by (auto simp: matches_Plus_Class)
    finally show ?thesis using Cons by simp
  qed
qed

theorem match_hyphenated:
  assumes "\<not> in_class rs (CHR ''-'')"
  shows "match_string (hyphenated rs) s \<longleftrightarrow> hyphen_scan (in_class rs) False s"
  using hyphen_scan_split [of "in_class rs" False s, OF assms]
  by (auto simp: match_string_iff hyphenated_def matches_Cat [of _ _ s] matches_Plus_Class
      matches_hyphen_tail [OF assms])

lemma match_Plus_Class:
  "match_string (Plus (Class rs)) s \<longleftrightarrow> s \<noteq> [] \<and> (\<forall>c\<in>set s. in_class rs c)"
  by (simp add: match_string_iff matches_Plus_Class)

lemma hyphen_scan_chars: "hyphen_scan C b s \<Longrightarrow> x \<in> set s \<Longrightarrow> C x \<or> x = CHR ''-''"
  by (induction s arbitrary: b) (auto split: if_splits)

lemma hyphen_scan_nonempty: "hyphen_scan C False s \<Longrightarrow> s \<noteq> []"
  by (cases s) auto

lemma hyphen_scan_ends:
  assumes "\<not> C (CHR ''-'')" and "hyphen_scan C False s"
  shows "C (hd s) \<and> C (last s)"
proof
  show "C (hd s)" using assms by (cases s) (auto split: if_splits)
  have "C (last s) \<or> (s = [] \<and> b)" if "hyphen_scan C b s" for b
    using that by (induction s arbitrary: b) (auto split: if_splits)
  then show "C (last s)" using assms(2) by blast
qed

text \<open>The same strings without a scan: no empty word, so no hyphen at an end and no two in a row.\<close>

lemma hyphen_scan_words:
  assumes "\<not> C (CHR ''-'')"
  shows "hyphen_scan C b s \<longleftrightarrow> (\<forall>c\<in>set s. C c \<or> c = CHR ''-'') \<and> (s = [] \<longrightarrow> b) \<and>
    (s \<noteq> [] \<longrightarrow> last s \<noteq> CHR ''-'' \<and> (b \<or> hd s \<noteq> CHR ''-'')) \<and> \<not> sublist ''--'' s"
proof (induction s arbitrary: b)
  case Nil
  show ?case by simp
next
  case (Cons c s)
  show ?case
    unfolding hyphen_scan.simps Cons.IH
    by (cases s) (use assms in \<open>auto simp: sublist_Cons_right\<close>)
qed

section \<open>The character classes of names\<close>

definition alnum :: "char \<Rightarrow> bool" where
  "alnum c \<longleftrightarrow> CHR ''A'' \<le> c \<and> c \<le> CHR ''Z'' \<or> CHR ''a'' \<le> c \<and> c \<le> CHR ''z'' \<or>
     CHR ''0'' \<le> c \<and> c \<le> CHR ''9''"

definition lower_alnum :: "char \<Rightarrow> bool" where
  "lower_alnum c \<longleftrightarrow> CHR ''a'' \<le> c \<and> c \<le> CHR ''z'' \<or> CHR ''0'' \<le> c \<and> c \<le> CHR ''9''"

lemma in_class_alnum:
  "in_class [(CHR ''A'', CHR ''Z''), (CHR ''a'', CHR ''z''), (CHR ''0'', CHR ''9'')] = alnum"
  by (auto simp: fun_eq_iff in_class_def alnum_def)

lemma in_class_lower:
  "in_class [(CHR ''a'', CHR ''z''), (CHR ''0'', CHR ''9'')] = lower_alnum"
  by (auto simp: fun_eq_iff in_class_def lower_alnum_def)

lemma alnum_separators [simp]:
  "\<not> alnum (CHR ''-'')" "\<not> alnum (CHR '':'')" "\<not> alnum (CHR ''/'')"
  "\<not> lower_alnum (CHR ''-'')" "\<not> lower_alnum (CHR '':'')" "\<not> lower_alnum (CHR ''/'')"
  by (simp_all add: alnum_def lower_alnum_def less_eq_char_def)

end
