(* ===== verification/Config.thy ===== *)
theory Config
  imports Perm Go_Regexp
begin

text \<open>
  The package \<open>internal/config\<close>: the configuration records, the defaults, the semantic checks
  that run after the schema validation, the aggregate of all grants and the lint warnings.

  Parameters stand for what the package calls outside the repository: \<open>url_parse\<close> is
  \<open>url.Parse\<close> with the accessors the checks read, \<open>url_host_lower\<close> being
  \<open>strings.ToLower\<close> of the host (\<^const>\<open>None\<close> is a parse error), and the
  record \<open>loader\<close> holds the YAML decoder and the JSON-schema validator used by
  \<open>LoadFromBytes\<close>. Errors are the constructors of \<open>config_error\<close>, one per error of the
  source, with the values it prints.
\<close>

section \<open>Data\<close>

record OIDCIssuer =
  iss_name :: string
  iss_preset :: string
  iss_issuer :: string
  iss_audience :: string
  iss_algorithms :: "string list"
  iss_max_lifetime :: int
  iss_claims :: "string list"
  iss_require :: "string list gomap"
  iss_audit_claims :: "string list"

record ServerConfig =
  srv_bind :: string
  srv_issuer :: string

record OIDCConfig =
  oidc_issuers :: "OIDCIssuer list"
  oidc_skew :: int

record GitHubAppConfig =
  app_id :: int
  app_key_path :: string
  app_key_env :: string

record PolicyConfig =
  pol_cost_limit :: nat
  pol_max_repositories :: int

record Policy =
  policy_name :: string
  policy_issuer :: string
  policy_condition :: string
  policy_grant :: perms

record Config =
  cfg_server :: ServerConfig
  cfg_oidc :: OIDCConfig
  cfg_app :: GitHubAppConfig
  cfg_policy :: PolicyConfig
  cfg_policies :: "Policy list"

record url =
  url_scheme :: string
  url_host :: string
  url_host_lower :: string
  url_hostname :: string
  url_port :: string
  url_has_user :: bool
  url_raw_query :: string
  url_force_query :: bool
  url_path :: string
  url_string :: string

definition GitHubPreset :: string where "GitHubPreset = ''github''"
definition githubIssuerHost :: string where
  "githubIssuerHost = ''token.actions.githubusercontent.com''"
definition GitHubIssuerURL :: string where "GitHubIssuerURL = ''https://'' @ githubIssuerHost"
definition maxTokenLifetimeLimit :: int where "maxTokenLifetimeLimit = 86400"
definition maxClockSkewLimit :: int where "maxClockSkewLimit = 300"

definition IsPreset :: "OIDCIssuer \<Rightarrow> bool" where
  "IsPreset i = (iss_preset i = GitHubPreset)"

definition githubClaims :: "(string \<times> bool) list" where
  "githubClaims = [
     (''repository'', True),
     (''repository_id'', True),
     (''repository_owner'', True),
     (''repository_owner_id'', True),
     (''job_workflow_ref'', False),
     (''workflow_ref'', True),
     (''workflow_sha'', False),
     (''job_workflow_sha'', False),
     (''sha'', False),
     (''ref'', False),
     (''ref_type'', False),
     (''ref_protected'', False),
     (''environment'', False),
     (''environment_node_id'', False),
     (''repository_visibility'', False),
     (''runner_environment'', False),
     (''enterprise'', True),
     (''enterprise_id'', True),
     (''issuer_scope'', False),
     (''event_name'', False),
     (''sub'', False)]"

definition GitHubClaims :: "string list" where
  "GitHubClaims = map fst githubClaims"

definition GitHubIdentityClaims :: "string list" where
  "GitHubIdentityClaims = map fst (filter snd githubClaims)"

definition GitHubAuditClaims :: "string list" where
  "GitHubAuditClaims = [''run_id'', ''run_number'', ''run_attempt'', ''check_run_id'']"

definition issuerNamePattern :: re where
  "issuerNamePattern =
     Plus (Class [(CHR ''a'', CHR ''z''), (CHR ''0'', CHR ''9''), (CHR ''-'', CHR ''-'')])"

definition enterpriseSlugPattern :: re where
  "enterpriseSlugPattern = hyphenated [(CHR ''a'', CHR ''z''), (CHR ''0'', CHR ''9'')]"

definition registeredClaims :: "string list" where
  "registeredClaims = [''iss'', ''aud'', ''exp'', ''iat'', ''nbf'']"

definition allowedAlgorithms :: "string list" where
  "allowedAlgorithms = [''RS256'', ''RS384'', ''RS512'', ''ES256'', ''ES384'', ''ES512'',
     ''PS256'', ''PS384'', ''PS512'', ''EdDSA'']"

datatype issuer_error =
    BadName
  | UnknownPreset string
  | NoAudience
  | IssuerRequired
  | NotCanonicalURL string
  | PresetClaimsSet
  | PresetIssuerURL
  | GitHubHostNeedsPreset
  | NoClaims
  | NoRequire
  | BadAlgorithm string
  | LifetimeRange
  | EmptyClaimName
  | UnprintableClaim string
  | RegisteredClaim string
  | DuplicateClaim string
  | RequireNoValues string
  | RequireEmptyValue string

datatype config_error =
    SingleIssuerLayout
  | PolicyWithoutIssuer string nat
  | ParseYaml string
  | NotJSON string
  | ParseDocument string
  | ParseSchema string
  | RegisterSchema string
  | CompileSchema string
  | SchemaViolation string
  | DecodeConfig string
  | ReadConfig string
  | NoIssuers
  | BadIssuer string issuer_error
  | DuplicateIssuerName string
  | DuplicateIssuerURL string
  | SkewRange
  | NoAppID
  | NoKeySource
  | TwoKeySources
  | NoServerIssuer
  | ServerIssuerNotHttps
  | DuplicatePolicyName string
  | PolicyUnknownIssuer string string
  | UnknownPermission string string
  | UnsupportedLevel string string string

section \<open>Defaults\<close>

definition default_issuer :: "OIDCIssuer \<Rightarrow> OIDCIssuer" where
  "default_issuer iss =
     (let i1 = (if IsPreset iss then
              (let a = (if iss_issuer iss = '''' then iss\<lparr>iss_issuer := GitHubIssuerURL\<rparr> else iss);
                   b = (if length (iss_claims a) = 0 then a\<lparr>iss_claims := GitHubClaims\<rparr> else a)
               in b\<lparr>iss_audit_claims := GitHubAuditClaims\<rparr>)
            else iss);
          i2 = (if length (iss_algorithms i1) = 0 then i1\<lparr>iss_algorithms := [''RS256'']\<rparr> else i1)
      in (if iss_max_lifetime i2 = 0 then i2\<lparr>iss_max_lifetime := 3600\<rparr> else i2))"

text \<open>\<open>port\<close> is the value of the environment variable \<open>PORT\<close>.\<close>

definition applyDefaults :: "string \<Rightarrow> Config \<Rightarrow> Config" where
  "applyDefaults port cfg =
     \<lparr>cfg_server = (if srv_bind (cfg_server cfg) = ''''
         then (cfg_server cfg)\<lparr>srv_bind := (if port \<noteq> '''' then '':'' @ port else '':8080'')\<rparr>
         else cfg_server cfg),
      cfg_oidc =
        \<lparr>oidc_issuers = map default_issuer (oidc_issuers (cfg_oidc cfg)),
         oidc_skew = (if oidc_skew (cfg_oidc cfg) = 0 then 60 else oidc_skew (cfg_oidc cfg))\<rparr>,
      cfg_app = cfg_app cfg,
      cfg_policy =
        \<lparr>pol_cost_limit =
           (if pol_cost_limit (cfg_policy cfg) = 0 then 10000 else pol_cost_limit (cfg_policy cfg)),
         pol_max_repositories =
           (if pol_max_repositories (cfg_policy cfg) = 0 then 256
            else pol_max_repositories (cfg_policy cfg))\<rparr>,
      cfg_policies = cfg_policies cfg\<rparr>"

section \<open>Checks\<close>

definition parseIssuerURL :: "(string \<Rightarrow> url option) \<Rightarrow> string \<Rightarrow> issuer_error + url" where
  "parseIssuerURL url_parse raw =
     (if raw = '''' then Inl IssuerRequired
      else case url_parse raw of
        None \<Rightarrow> Inl (NotCanonicalURL raw)
      | Some u \<Rightarrow>
          if url_scheme u \<noteq> ''https'' \<or> url_host u = '''' \<or> url_host u \<noteq> url_host_lower u \<or>
            url_port u = ''443'' \<or> has_suffix (url_host u) '':'' \<or> has_suffix (url_hostname u) ''.'' \<or>
            url_has_user u \<or> url_raw_query u \<noteq> '''' \<or> url_force_query u \<or> CHR ''#'' \<in> set raw \<or>
            has_suffix (url_path u) ''/'' \<or> url_string u \<noteq> raw
          then Inl (NotCanonicalURL raw)
          else Inr u)"

text \<open>
  The source loops over runes. A byte above \<open>~\<close> is part of a rune above \<open>~\<close> (or of an invalid
  sequence, decoded as U+FFFD), so the loop finds a bad rune exactly when there is a bad byte.
\<close>

definition checkClaimName :: "string \<Rightarrow> issuer_error + unit" where
  "checkClaimName name =
     (if name = '''' then Inl EmptyClaimName
      else if list_ex (\<lambda>r. r \<le> CHR '' '' \<or> r > CHR ''~'') name then Inl (UnprintableClaim name)
      else if name \<in> set registeredClaims then Inl (RegisteredClaim name)
      else Inr ())"

fun check_claims :: "string list \<Rightarrow> string list \<Rightarrow> issuer_error + unit" where
  "check_claims seen [] = Inr ()"
| "check_claims seen (c # cs) =
     bind_r (checkClaimName c) (\<lambda>_.
       if c \<in> set seen then Inl (DuplicateClaim c) else check_claims (c # seen) cs)"

definition check_require :: "OIDCIssuer \<Rightarrow> string \<Rightarrow> issuer_error + unit" where
  "check_require iss c =
     bind_r (checkClaimName c) (\<lambda>_.
       (let values = (case gm_lookup (iss_require iss) c of None \<Rightarrow> [] | Some vs \<Rightarrow> vs) in
        if length values = 0 then Inl (RequireNoValues c)
        else if '''' \<in> set values then Inl (RequireEmptyValue c)
        else Inr ()))"

definition check_preset :: "OIDCIssuer \<Rightarrow> url \<Rightarrow> issuer_error + unit" where
  "check_preset iss u =
     (if IsPreset iss then
        if iss_claims iss \<noteq> GitHubClaims then Inl PresetClaimsSet
        else if iss_issuer iss \<noteq> GitHubIssuerURL \<and>
          (case cut_prefix (iss_issuer iss) (GitHubIssuerURL @ ''/'') of
             None \<Rightarrow> True
           | Some slug \<Rightarrow> \<not> match_string enterpriseSlugPattern slug)
        then Inl PresetIssuerURL
        else Inr ()
      else
        if url_hostname u = githubIssuerHost then Inl GitHubHostNeedsPreset
        else if length (iss_claims iss) = 0 then Inl NoClaims
        else if gm_len (iss_require iss) = 0 then Inl NoRequire
        else Inr ())"

definition check_algorithm :: "string \<Rightarrow> issuer_error + unit" where
  "check_algorithm alg = (if alg \<notin> set allowedAlgorithms then Inl (BadAlgorithm alg) else Inr ())"

definition validateIssuer :: "(string \<Rightarrow> url option) \<Rightarrow> OIDCIssuer \<Rightarrow> issuer_error + unit" where
  "validateIssuer url_parse iss =
     (if \<not> match_string issuerNamePattern (iss_name iss) then Inl BadName
      else if iss_preset iss \<noteq> '''' \<and> \<not> IsPreset iss then Inl (UnknownPreset (iss_preset iss))
      else if iss_audience iss = '''' then Inl NoAudience
      else
        bind_r (parseIssuerURL url_parse (iss_issuer iss)) (\<lambda>u.
        bind_r (check_preset iss u) (\<lambda>_.
        bind_r (each_r check_algorithm (iss_algorithms iss)) (\<lambda>_.
        if iss_max_lifetime iss < 1 \<or> iss_max_lifetime iss > maxTokenLifetimeLimit
        then Inl LifetimeRange
        else
          bind_r (check_claims [] (iss_claims iss)) (\<lambda>_.
          each_r (check_require iss) (sort (gm_keys (iss_require iss))))))))"

text \<open>The loop over the issuers, with the names and the URLs seen so far.\<close>

fun validate_issuers ::
  "(string \<Rightarrow> url option) \<Rightarrow> string list \<Rightarrow> string list \<Rightarrow> OIDCIssuer list \<Rightarrow> config_error + unit" where
  "validate_issuers url_parse names urls [] = Inr ()"
| "validate_issuers url_parse names urls (iss # isss) =
     bind_r (map_err (BadIssuer (iss_name iss)) (validateIssuer url_parse iss)) (\<lambda>_.
       if iss_name iss \<in> set names then Inl (DuplicateIssuerName (iss_name iss))
       else if iss_issuer iss \<in> set urls then Inl (DuplicateIssuerURL (iss_issuer iss))
       else validate_issuers url_parse (iss_name iss # names) (iss_issuer iss # urls) isss)"

text \<open>The loop ranges over the map, so it reports the first bad entry in iteration order.\<close>

definition checkPermissions :: "string \<Rightarrow> perms \<Rightarrow> config_error + unit" where
  "checkPermissions policy ps =
     each_r (\<lambda>(k, v).
       if \<not> ValidKey k then Inl (UnknownPermission policy k)
       else if \<not> ValidKeyLevel k v then Inl (UnsupportedLevel policy k v)
       else Inr ()) (gm_entries ps)"

fun validate_policies :: "string list \<Rightarrow> string list \<Rightarrow> Policy list \<Rightarrow> config_error + unit" where
  "validate_policies issuerNames seen [] = Inr ()"
| "validate_policies issuerNames seen (p # ps) =
     (if policy_name p \<in> set seen then Inl (DuplicatePolicyName (policy_name p))
      else if policy_issuer p \<notin> set issuerNames
      then Inl (PolicyUnknownIssuer (policy_name p) (policy_issuer p))
      else bind_r (checkPermissions (policy_name p) (policy_grant p)) (\<lambda>_.
        validate_policies issuerNames (policy_name p # seen) ps))"

definition validate :: "(string \<Rightarrow> url option) \<Rightarrow> Config \<Rightarrow> config_error + unit" where
  "validate url_parse cfg =
     (if length (oidc_issuers (cfg_oidc cfg)) = 0 then Inl NoIssuers
      else bind_r (validate_issuers url_parse [] [] (oidc_issuers (cfg_oidc cfg))) (\<lambda>_.
        if oidc_skew (cfg_oidc cfg) < 0 \<or> oidc_skew (cfg_oidc cfg) > maxClockSkewLimit then Inl SkewRange
        else if app_id (cfg_app cfg) = 0 then Inl NoAppID
        else if app_key_path (cfg_app cfg) = '''' \<and> app_key_env (cfg_app cfg) = '''' then Inl NoKeySource
        else if app_key_path (cfg_app cfg) \<noteq> '''' \<and> app_key_env (cfg_app cfg) \<noteq> '''' then Inl TwoKeySources
        else if srv_issuer (cfg_server cfg) = '''' then Inl NoServerIssuer
        else if (case url_parse (srv_issuer (cfg_server cfg)) of
            None \<Rightarrow> True
          | Some u \<Rightarrow> url_scheme u \<noteq> ''https'' \<or> url_host u = '''') then Inl ServerIssuerNotHttps
        else validate_policies (map iss_name (oidc_issuers (cfg_oidc cfg))) [] (cfg_policies cfg)))"

section \<open>Loading\<close>

text \<open>
  The loosely typed document the layout check reads: the keys of \<open>oidc\<close> and, per policy, its
  keys and its name when that is a string.
\<close>

datatype yaml_any = YString string | YOther

record shape =
  shape_oidc :: "yaml_any gomap"
  shape_policies :: "yaml_any gomap list"

fun check_policy_issuers :: "nat \<Rightarrow> yaml_any gomap list \<Rightarrow> config_error + unit" where
  "check_policy_issuers i [] = Inr ()"
| "check_policy_issuers i (p # ps) =
     (if gm_lookup p ''issuer'' = None
      then Inl (PolicyWithoutIssuer
        (case gm_lookup p ''name'' of Some (YString name) \<Rightarrow> name | _ \<Rightarrow> '''') i)
      else check_policy_issuers (i + 1) ps)"

definition checkSingleIssuerShape :: "shape option \<Rightarrow> config_error + unit" where
  "checkSingleIssuerShape parsed =
     (case parsed of
        None \<Rightarrow> Inr ()
      | Some doc \<Rightarrow>
          if gm_lookup (shape_oidc doc) ''issuer'' \<noteq> None \<or> gm_lookup (shape_oidc doc) ''audience'' \<noteq> None
          then Inl SingleIssuerLayout
          else check_policy_issuers 0 (shape_policies doc))"

text \<open>
  The decoders and the validator of the libraries: YAML into the loose shape, into a generic value
  and into the configuration, JSON encoding and decoding, and the schema compiler.
\<close>

record ('y, 'd, 's) loader =
  yaml_shape :: "string \<Rightarrow> shape option"
  yaml_value :: "string \<Rightarrow> string + 'y"
  json_marshal :: "'y \<Rightarrow> string + string"
  json_document :: "string \<Rightarrow> string + 'd"
  add_resource :: "'d \<Rightarrow> string + 's"
  compile_schema :: "'s \<Rightarrow> string + 's"
  schema_validate :: "'s \<Rightarrow> 'd \<Rightarrow> string + unit"
  yaml_config :: "string \<Rightarrow> string + Config"

definition validateSchema :: "('y, 'd, 's) loader \<Rightarrow> string \<Rightarrow> string \<Rightarrow> config_error + unit" where
  "validateSchema ld configSchema data =
     bind_r (map_err ParseYaml (yaml_value ld data)) (\<lambda>raw.
     bind_r (map_err NotJSON (json_marshal ld raw)) (\<lambda>jsonBytes.
     bind_r (map_err ParseDocument (json_document ld jsonBytes)) (\<lambda>doc.
     bind_r (map_err ParseSchema (json_document ld configSchema)) (\<lambda>schemaDoc.
     bind_r (map_err RegisterSchema (add_resource ld schemaDoc)) (\<lambda>compiler.
     bind_r (map_err CompileSchema (compile_schema ld compiler)) (\<lambda>schema.
     map_err SchemaViolation (schema_validate ld schema doc)))))))"

definition LoadFromBytes ::
  "('y, 'd, 's) loader \<Rightarrow> (string \<Rightarrow> url option) \<Rightarrow> string \<Rightarrow> string \<Rightarrow> string \<Rightarrow> config_error + Config" where
  "LoadFromBytes ld url_parse configSchema port data =
     bind_r (checkSingleIssuerShape (yaml_shape ld data)) (\<lambda>_.
     bind_r (validateSchema ld configSchema data) (\<lambda>_.
     bind_r (map_err DecodeConfig (yaml_config ld data)) (\<lambda>raw.
     (let cfg = applyDefaults port raw in
      bind_r (validate url_parse cfg) (\<lambda>_. Inr cfg)))))"

text \<open>\<open>file\<close> is the outcome of \<open>os.ReadFile\<close>.\<close>

definition Load ::
  "('y, 'd, 's) loader \<Rightarrow> (string \<Rightarrow> url option) \<Rightarrow> string \<Rightarrow> string \<Rightarrow> string + string \<Rightarrow> config_error + Config" where
  "Load ld url_parse configSchema port file =
     bind_r (map_err ReadConfig file) (LoadFromBytes ld url_parse configSchema port)"

section \<open>Aggregate grant and lint\<close>

text \<open>The inner loop, for the grant of one policy.\<close>

definition aggregate :: "perms \<Rightarrow> perms \<Rightarrow> perms" where
  "aggregate agg ps =
     gm_merge (\<lambda>k v existing.
       if \<not> ValidKey k \<or> \<not> ValidLevel v then None
       else case existing of
           None \<Rightarrow> Some v
         | Some e \<Rightarrow> if LevelOrd v > LevelOrd e then Some v else None) ps agg"

definition AggregateGrantPermissions :: "Config \<Rightarrow> perms" where
  "AggregateGrantPermissions c =
     foldl (\<lambda>agg p. aggregate agg (policy_grant p)) gm_empty (cfg_policies c)"

datatype lint_warning =
    EmptyPolicies
  | UnreferencedIssuer string
  | PresetWithoutRequire string

definition lint_issuer :: "string list \<Rightarrow> OIDCIssuer \<Rightarrow> lint_warning list" where
  "lint_issuer referenced iss =
     (if iss_name iss \<notin> set referenced then [UnreferencedIssuer (iss_name iss)] else []) @
     (if IsPreset iss \<and> gm_len (iss_require iss) = 0 then [PresetWithoutRequire (iss_name iss)] else [])"

definition Lint :: "Config \<Rightarrow> lint_warning list" where
  "Lint c =
     (if length (cfg_policies c) = 0 then [EmptyPolicies] else []) @
     concat (map (lint_issuer (map policy_issuer (cfg_policies c))) (oidc_issuers (cfg_oidc c)))"

section \<open>What the checks accept\<close>

text \<open>
  The specification of the checks, written out from the documentation of the configuration and
  without calling the operations it specifies: what a canonical issuer URL, an issuer name, an
  enterprise slug and a claim name are, and what holds of an issuer and of a whole configuration.
\<close>

definition canonical_url :: "(string \<Rightarrow> url option) \<Rightarrow> string \<Rightarrow> url \<Rightarrow> bool" where
  "canonical_url url_parse raw u \<longleftrightarrow> raw \<noteq> '''' \<and> url_parse raw = Some u \<and> url_string u = raw \<and>
     url_scheme u = ''https'' \<and> url_host u \<noteq> '''' \<and> url_host_lower u = url_host u \<and>
     url_port u \<noteq> ''443'' \<and> \<not> suffix '':'' (url_host u) \<and> \<not> suffix ''.'' (url_hostname u) \<and>
     \<not> url_has_user u \<and> url_raw_query u = '''' \<and> \<not> url_force_query u \<and> CHR ''#'' \<notin> set raw \<and>
     \<not> suffix ''/'' (url_path u)"

definition issuer_name :: "string \<Rightarrow> bool" where
  "issuer_name s \<longleftrightarrow> s \<noteq> '''' \<and> (\<forall>c\<in>set s. lower_alnum c \<or> c = CHR ''-'')"

definition enterprise_slug :: "string \<Rightarrow> bool" where
  "enterprise_slug s \<longleftrightarrow> s \<noteq> '''' \<and> (\<forall>c\<in>set s. lower_alnum c \<or> c = CHR ''-'') \<and>
     hd s \<noteq> CHR ''-'' \<and> last s \<noteq> CHR ''-'' \<and> \<not> sublist ''--'' s"

definition signing_algorithm :: "string \<Rightarrow> bool" where
  "signing_algorithm a \<longleftrightarrow> a \<in> {''RS256'', ''RS384'', ''RS512'', ''ES256'', ''ES384'', ''ES512'',
     ''PS256'', ''PS384'', ''PS512'', ''EdDSA''}"

definition claim_ok :: "string \<Rightarrow> bool" where
  "claim_ok c \<longleftrightarrow> c \<noteq> '''' \<and> (\<forall>r\<in>set c. CHR '' '' < r \<and> r \<le> CHR ''~'') \<and>
     c \<notin> {''iss'', ''aud'', ''exp'', ''iat'', ''nbf''}"

definition require_ok :: "string list gomap \<Rightarrow> bool" where
  "require_ok req \<longleftrightarrow>
     (\<forall>c vs. gm_lookup req c = Some vs \<longrightarrow> claim_ok c \<and> vs \<noteq> [] \<and> '''' \<notin> set vs)"

definition preset_ok :: "OIDCIssuer \<Rightarrow> bool" where
  "preset_ok iss \<longleftrightarrow> iss_claims iss = GitHubClaims \<and>
     (iss_issuer iss = ''https://token.actions.githubusercontent.com'' \<or>
      (\<exists>slug. iss_issuer iss = ''https://token.actions.githubusercontent.com/'' @ slug \<and>
        enterprise_slug slug))"

definition plain_ok :: "OIDCIssuer \<Rightarrow> url \<Rightarrow> bool" where
  "plain_ok iss u \<longleftrightarrow> iss_preset iss = '''' \<and> url_hostname u \<noteq> ''token.actions.githubusercontent.com'' \<and>
     iss_claims iss \<noteq> [] \<and> gm_lookup (iss_require iss) \<noteq> Map.empty"

definition issuer_ok :: "(string \<Rightarrow> url option) \<Rightarrow> OIDCIssuer \<Rightarrow> bool" where
  "issuer_ok url_parse iss \<longleftrightarrow>
     issuer_name (iss_name iss) \<and> iss_audience iss \<noteq> '''' \<and>
     (\<exists>u. canonical_url url_parse (iss_issuer iss) u \<and>
       (if iss_preset iss = ''github'' then preset_ok iss else plain_ok iss u)) \<and>
     (\<forall>a\<in>set (iss_algorithms iss). signing_algorithm a) \<and>
     1 \<le> iss_max_lifetime iss \<and> iss_max_lifetime iss \<le> 86400 \<and>
     distinct (iss_claims iss) \<and> (\<forall>c\<in>set (iss_claims iss). claim_ok c) \<and>
     require_ok (iss_require iss)"

lemma issuer_literals:
  "GitHubIssuerURL = ''https://token.actions.githubusercontent.com''"
  "GitHubIssuerURL @ ''/'' = ''https://token.actions.githubusercontent.com/''"
  "githubIssuerHost = ''token.actions.githubusercontent.com''" "GitHubPreset = ''github''"
  by (simp_all add: GitHubIssuerURL_def githubIssuerHost_def GitHubPreset_def)

lemma parseIssuerURL_Inr_iff [result_iff]:
  "parseIssuerURL url_parse raw = Inr u \<longleftrightarrow> canonical_url url_parse raw u"
  by (auto simp: parseIssuerURL_def canonical_url_def has_suffix_def split: option.splits)

lemma match_issuerNamePattern: "match_string issuerNamePattern s \<longleftrightarrow> issuer_name s"
  by (auto simp: issuerNamePattern_def match_Plus_Class issuer_name_def in_class_def lower_alnum_def)

lemma match_enterpriseSlugPattern: "match_string enterpriseSlugPattern s \<longleftrightarrow> enterprise_slug s"
  by (auto simp: enterpriseSlugPattern_def match_hyphenated in_class_lower hyphen_scan_words
      enterprise_slug_def)

lemma checkClaimName_Inr_iff [result_iff]: "checkClaimName c = Inr u \<longleftrightarrow> claim_ok c"
  by (auto simp: checkClaimName_def claim_ok_def list_ex_iff not_le not_less registeredClaims_def)

lemma check_claims_Inr_iff [result_iff]:
  "check_claims seen cs = Inr u \<longleftrightarrow>
    (\<forall>c\<in>set cs. claim_ok c) \<and> distinct cs \<and> set cs \<inter> set seen = {}"
  by (induction cs arbitrary: seen) (auto simp: result_iff)

lemma check_require_Inr_iff [result_iff]:
  "check_require iss c = Inr u \<longleftrightarrow> claim_ok c \<and>
    (\<exists>vs. gm_lookup (iss_require iss) c = Some vs \<and> vs \<noteq> [] \<and> '''' \<notin> set vs)"
  by (auto simp: check_require_def result_iff Let_def split: option.splits if_splits)

lemma require_ok_keys:
  "require_ok req \<longleftrightarrow> (\<forall>c\<in>set (gm_keys req). claim_ok c \<and>
    (\<exists>vs. gm_lookup req c = Some vs \<and> vs \<noteq> [] \<and> '''' \<notin> set vs))"
proof
  assume "require_ok req"
  then show "\<forall>c\<in>set (gm_keys req). claim_ok c \<and>
    (\<exists>vs. gm_lookup req c = Some vs \<and> vs \<noteq> [] \<and> '''' \<notin> set vs)"
    by (auto simp: require_ok_def gm_keys_dom)
next
  assume *: "\<forall>c\<in>set (gm_keys req). claim_ok c \<and>
    (\<exists>vs. gm_lookup req c = Some vs \<and> vs \<noteq> [] \<and> '''' \<notin> set vs)"
  show "require_ok req"
    unfolding require_ok_def
  proof (intro allI impI)
    fix c vs
    assume "gm_lookup req c = Some vs"
    with *[rule_format, of c] show "claim_ok c \<and> vs \<noteq> [] \<and> '''' \<notin> set vs"
      by (auto simp: gm_keys_dom)
  qed
qed

lemma check_preset_Inr_iff [result_iff]:
  "check_preset iss u = Inr x \<longleftrightarrow>
    (if iss_preset iss = ''github'' then preset_ok iss
     else url_hostname u \<noteq> ''token.actions.githubusercontent.com'' \<and> iss_claims iss \<noteq> [] \<and>
       gm_lookup (iss_require iss) \<noteq> Map.empty)"
proof -
  have slug: "(case cut_prefix raw p of None \<Rightarrow> True | Some s \<Rightarrow> \<not> match_string enterpriseSlugPattern s)
    \<longleftrightarrow> \<not> (\<exists>s. raw = p @ s \<and> enterprise_slug s)" for raw p
    by (auto simp: cut_prefix_def prefix_def match_enterpriseSlugPattern)
  show ?thesis
    unfolding check_preset_def preset_ok_def slug issuer_literals
    by (simp add: gm_len_0_iff IsPreset_def issuer_literals)
qed

lemma check_algorithm_Inr_iff [result_iff]:
  "check_algorithm a = Inr u \<longleftrightarrow> signing_algorithm a"
  by (simp add: check_algorithm_def allowedAlgorithms_def signing_algorithm_def)

lemma validateIssuer_Inr_iff [result_iff]:
  "validateIssuer url_parse iss = Inr u \<longleftrightarrow> issuer_ok url_parse iss"
  by (auto simp: validateIssuer_def issuer_ok_def result_iff plain_ok_def require_ok_keys IsPreset_def
      maxTokenLifetimeLimit_def GitHubPreset_def match_issuerNamePattern split: if_splits)

lemma validate_issuers_Inr_iff [result_iff]:
  "validate_issuers url_parse names urls isss = Inr u \<longleftrightarrow>
    (\<forall>iss\<in>set isss. issuer_ok url_parse iss) \<and>
    distinct (map iss_name isss) \<and> iss_name ` set isss \<inter> set names = {} \<and>
    distinct (map iss_issuer isss) \<and> iss_issuer ` set isss \<inter> set urls = {}"
  by (induction isss arbitrary: names urls) (auto simp: result_iff)

definition perms_ok :: "perms \<Rightarrow> bool" where
  "perms_ok ps \<longleftrightarrow> (\<forall>k v. gm_lookup ps k = Some v \<longrightarrow>
     (\<exists>allowed. map_of Catalog k = Some allowed \<and> v \<in> set allowed))"

lemma perms_ok_iff: "perms_ok ps \<longleftrightarrow> (\<forall>k v. gm_lookup ps k = Some v \<longrightarrow> ValidKeyLevel k v)"
  by (fastforce simp: perms_ok_def ValidKeyLevel_def list_ex_iff split: option.splits)

lemma ValidKeyLevel_ValidKey: "ValidKeyLevel k v \<Longrightarrow> ValidKey k"
  by (auto simp: ValidKeyLevel_def ValidKey_def split: option.splits)

lemma checkPermissions_Inr_iff [result_iff]: "checkPermissions p ps = Inr u \<longleftrightarrow> perms_ok ps"
  by (fastforce simp: checkPermissions_def perms_ok_iff result_iff gm_lookup_iff_entry
      dest: ValidKeyLevel_ValidKey)

lemma validate_policies_Inr_iff [result_iff]:
  "validate_policies issuerNames seen ps = Inr u \<longleftrightarrow>
    distinct (map policy_name ps) \<and> policy_name ` set ps \<inter> set seen = {} \<and>
    (\<forall>p\<in>set ps. policy_issuer p \<in> set issuerNames \<and> perms_ok (policy_grant p))"
  by (induction ps arbitrary: seen) (auto simp: result_iff)

definition config_ok :: "(string \<Rightarrow> url option) \<Rightarrow> Config \<Rightarrow> bool" where
  "config_ok url_parse cfg \<longleftrightarrow>
     oidc_issuers (cfg_oidc cfg) \<noteq> [] \<and>
     (\<forall>iss\<in>set (oidc_issuers (cfg_oidc cfg)). issuer_ok url_parse iss) \<and>
     distinct (map iss_name (oidc_issuers (cfg_oidc cfg))) \<and>
     distinct (map iss_issuer (oidc_issuers (cfg_oidc cfg))) \<and>
     0 \<le> oidc_skew (cfg_oidc cfg) \<and> oidc_skew (cfg_oidc cfg) \<le> 300 \<and>
     app_id (cfg_app cfg) \<noteq> 0 \<and>
     (app_key_path (cfg_app cfg) = '''' \<longleftrightarrow> app_key_env (cfg_app cfg) \<noteq> '''') \<and>
     srv_issuer (cfg_server cfg) \<noteq> '''' \<and>
     (\<exists>u. url_parse (srv_issuer (cfg_server cfg)) = Some u \<and> url_scheme u = ''https'' \<and> url_host u \<noteq> '''') \<and>
     distinct (map policy_name (cfg_policies cfg)) \<and>
     (\<forall>p\<in>set (cfg_policies cfg).
        policy_issuer p \<in> iss_name ` set (oidc_issuers (cfg_oidc cfg)) \<and> perms_ok (policy_grant p))"

lemma validate_Inr_iff [result_iff]: "validate url_parse cfg = Inr u \<longleftrightarrow> config_ok url_parse cfg"
  by (auto simp: validate_def config_ok_def result_iff maxClockSkewLimit_def split: option.splits)

section \<open>Aggregation as a join of grants\<close>

lemma level_at_aggregate: "level_at (aggregate agg ps) k = max (level_at agg k) (level_at ps k)"
  by (auto simp: level_at_def lookup_Normalize aggregate_def gm_lookup_merge LevelOrd_0_iff max_def
      not_le not_less LevelOrd_pos_iff LevelOrd_invalid split: option.splits if_splits)

interpretation ag: grant_join Satisfies aggregate gm_empty
  by unfold_locales
    (auto simp: Satisfies_iff_level level_at_aggregate lookup_Normalize level_at_def [of gm_empty]
      intro: le_trans)

section \<open>A configuration for the witnesses\<close>

definition sample_url :: "string \<Rightarrow> string \<Rightarrow> string \<Rightarrow> url" where
  "sample_url raw host path = \<lparr>url_scheme = ''https'', url_host = host, url_host_lower = host,
     url_hostname = host, url_port = '''', url_has_user = False, url_raw_query = '''',
     url_force_query = False, url_path = path, url_string = raw\<rparr>"

text \<open>\<open>url.Parse\<close> on the three URLs of the configuration.\<close>

definition sample_url_parse :: "string \<Rightarrow> url option" where
  "sample_url_parse raw =
     (if raw = GitHubIssuerURL then Some (sample_url raw githubIssuerHost '''')
      else if raw = ''https://idp.example/ci'' then Some (sample_url raw ''idp.example'' ''/ci'')
      else if raw = ''https://broker.example'' then Some (sample_url raw ''broker.example'' '''')
      else None)"

definition sample_issuer :: OIDCIssuer where
  "sample_issuer = \<lparr>iss_name = ''github'', iss_preset = ''github'', iss_issuer = '''',
     iss_audience = ''broker'', iss_algorithms = [], iss_max_lifetime = 0, iss_claims = [],
     iss_require = gm_empty, iss_audit_claims = []\<rparr>"

definition sample_plain_issuer :: OIDCIssuer where
  "sample_plain_issuer = \<lparr>iss_name = ''ci'', iss_preset = '''', iss_issuer = ''https://idp.example/ci'',
     iss_audience = ''broker'', iss_algorithms = [''ES256''], iss_max_lifetime = 600,
     iss_claims = [''project''], iss_require = gm_of [(''project'', [''p1''])], iss_audit_claims = []\<rparr>"

definition sample_raw_config :: Config where
  "sample_raw_config =
     \<lparr>cfg_server = \<lparr>srv_bind = '''', srv_issuer = ''https://broker.example''\<rparr>,
      cfg_oidc = \<lparr>oidc_issuers = [sample_issuer, sample_plain_issuer], oidc_skew = 0\<rparr>,
      cfg_app = \<lparr>app_id = 7, app_key_path = ''/key.pem'', app_key_env = ''''\<rparr>,
      cfg_policy = \<lparr>pol_cost_limit = 0, pol_max_repositories = 0\<rparr>,
      cfg_policies =
        [\<lparr>policy_name = ''own'', policy_issuer = ''github'', policy_condition = ''own condition'',
           policy_grant = gm_of [(''contents'', ''write'')]\<rparr>,
         \<lparr>policy_name = ''ci'', policy_issuer = ''ci'', policy_condition = ''ci condition'',
           policy_grant = gm_of [(''contents'', ''read'')]\<rparr>]\<rparr>"

definition sample_config :: Config where
  "sample_config = applyDefaults '''' sample_raw_config"

lemma sample_config_valid: "validate sample_url_parse sample_config = Inr ()"
  by code_simp

lemma sample_config_ok: "config_ok sample_url_parse sample_config"
  using sample_config_valid by (simp add: validate_Inr_iff)


section \<open>Properties of the configuration\<close>

lemma default_issuer_fields:
  "default_issuer iss = iss
     \<lparr>iss_issuer := (if IsPreset iss \<and> iss_issuer iss = '''' then GitHubIssuerURL else iss_issuer iss),
      iss_claims := (if IsPreset iss \<and> iss_claims iss = [] then GitHubClaims else iss_claims iss),
      iss_audit_claims := (if IsPreset iss then GitHubAuditClaims else iss_audit_claims iss),
      iss_algorithms := (if iss_algorithms iss = [] then [''RS256''] else iss_algorithms iss),
      iss_max_lifetime := (if iss_max_lifetime iss = 0 then 3600 else iss_max_lifetime iss)\<rparr>"
  by (cases iss) (simp add: default_issuer_def Let_def IsPreset_def)

lemma default_issuer_algorithms: "iss_algorithms (default_issuer iss) \<noteq> []"
  by (simp add: default_issuer_def Let_def)

lemma LoadFromBytes_Inr:
  assumes "LoadFromBytes ld url_parse schema port data = Inr cfg"
  obtains raw where "yaml_config ld data = Inr raw" "cfg = applyDefaults port raw" "config_ok url_parse cfg"
    "checkSingleIssuerShape (yaml_shape ld data) = Inr ()" "validateSchema ld schema data = Inr ()"
  using assms by (auto simp: LoadFromBytes_def Let_def result_iff)

lemma LoadFromBytes_config:
  assumes "LoadFromBytes ld url_parse schema port data = Inr cfg"
  shows "config_ok url_parse cfg" "\<forall>iss\<in>set (oidc_issuers (cfg_oidc cfg)). iss_algorithms iss \<noteq> []"
proof -
  obtain raw where raw: "cfg = applyDefaults port raw" and ok: "config_ok url_parse cfg"
    by (rule LoadFromBytes_Inr [OF assms])
  show "config_ok url_parse cfg" by (rule ok)
  show "\<forall>iss\<in>set (oidc_issuers (cfg_oidc cfg)). iss_algorithms iss \<noteq> []"
    by (simp add: raw applyDefaults_def default_issuer_algorithms)
qed

text \<open>A loader whose document is the raw configuration of the witnesses and satisfies the schema.\<close>

definition sample_loader :: "(unit, unit, unit) loader" where
  "sample_loader = \<lparr>yaml_shape = (\<lambda>data. Some \<lparr>shape_oidc = gm_of [(''issuers'', YOther)],
       shape_policies = [gm_of [(''name'', YString ''own''), (''issuer'', YString ''github'')]]\<rparr>),
     yaml_value = (\<lambda>data. Inr ()), json_marshal = (\<lambda>v. Inr ''''), json_document = (\<lambda>text. Inr ()),
     add_resource = (\<lambda>d. Inr ()), compile_schema = (\<lambda>s. Inr ()), schema_validate = (\<lambda>s d. Inr ()),
     yaml_config = (\<lambda>data. Inr sample_raw_config)\<rparr>"

lemma sample_loaded: "LoadFromBytes sample_loader sample_url_parse '''' '''' '''' = Inr sample_config"
proof -
  have "checkSingleIssuerShape (yaml_shape sample_loader '''') = Inr ()" by code_simp
  then show ?thesis
    using sample_config_valid
    by (simp add: LoadFromBytes_def validateSchema_def sample_loader_def Let_def sample_config_def [symmetric])
qed


text \<open>
  The layout rule, the schema check and the defaults as conditions, without the operations that
  implement them. A document the loose decoder cannot read passes the layout rule: the schema check
  reports it.
\<close>

definition well_laid_out :: "shape option \<Rightarrow> bool" where
  "well_laid_out parsed \<longleftrightarrow> (\<forall>doc. parsed = Some doc \<longrightarrow>
     ''issuer'' \<notin> dom (gm_lookup (shape_oidc doc)) \<and> ''audience'' \<notin> dom (gm_lookup (shape_oidc doc)) \<and>
     (\<forall>p\<in>set (shape_policies doc). ''issuer'' \<in> dom (gm_lookup p)))"

definition schema_accepts :: "('y, 'd, 's) loader \<Rightarrow> string \<Rightarrow> string \<Rightarrow> bool" where
  "schema_accepts ld configSchema data \<longleftrightarrow>
     (\<exists>value json doc schemaDoc registered schema.
        yaml_value ld data = Inr value \<and> json_marshal ld value = Inr json \<and> json_document ld json = Inr doc \<and>
        json_document ld configSchema = Inr schemaDoc \<and> add_resource ld schemaDoc = Inr registered \<and>
        compile_schema ld registered = Inr schema \<and> schema_validate ld schema doc = Inr ())"

definition or_default :: "'a \<Rightarrow> 'a \<Rightarrow> 'a \<Rightarrow> 'a" where
  "or_default unset d x = (if x = unset then d else x)"

definition issuer_defaulted :: "OIDCIssuer \<Rightarrow> OIDCIssuer \<Rightarrow> bool" where
  "issuer_defaulted i i' \<longleftrightarrow>
     iss_name i' = iss_name i \<and> iss_preset i' = iss_preset i \<and> iss_audience i' = iss_audience i \<and>
     iss_require i' = iss_require i \<and>
     iss_algorithms i' = or_default [] [''RS256''] (iss_algorithms i) \<and>
     iss_max_lifetime i' = or_default 0 3600 (iss_max_lifetime i) \<and>
     (if iss_preset i = ''github''
      then iss_issuer i' = or_default '''' ''https://token.actions.githubusercontent.com'' (iss_issuer i) \<and>
        iss_claims i' = or_default [] GitHubClaims (iss_claims i) \<and>
        iss_audit_claims i' = [''run_id'', ''run_number'', ''run_attempt'', ''check_run_id'']
      else iss_issuer i' = iss_issuer i \<and> iss_claims i' = iss_claims i \<and>
        iss_audit_claims i' = iss_audit_claims i)"

definition defaulted :: "string \<Rightarrow> Config \<Rightarrow> Config \<Rightarrow> bool" where
  "defaulted port raw cfg \<longleftrightarrow>
     srv_bind (cfg_server cfg) =
       or_default '''' (if port = '''' then '':8080'' else CHR '':'' # port) (srv_bind (cfg_server raw)) \<and>
     srv_issuer (cfg_server cfg) = srv_issuer (cfg_server raw) \<and>
     list_all2 issuer_defaulted (oidc_issuers (cfg_oidc raw)) (oidc_issuers (cfg_oidc cfg)) \<and>
     oidc_skew (cfg_oidc cfg) = or_default 0 60 (oidc_skew (cfg_oidc raw)) \<and>
     pol_cost_limit (cfg_policy cfg) = or_default 0 10000 (pol_cost_limit (cfg_policy raw)) \<and>
     pol_max_repositories (cfg_policy cfg) = or_default 0 256 (pol_max_repositories (cfg_policy raw)) \<and>
     cfg_app cfg = cfg_app raw \<and> cfg_policies cfg = cfg_policies raw"

lemma check_policy_issuers_Inr_iff [result_iff]:
  "check_policy_issuers i ps = Inr u \<longleftrightarrow> (\<forall>p\<in>set ps. ''issuer'' \<in> dom (gm_lookup p))"
  by (induction ps arbitrary: i) (auto simp: domIff)

lemma checkSingleIssuerShape_Inr_iff [result_iff]:
  "checkSingleIssuerShape parsed = Inr u \<longleftrightarrow> well_laid_out parsed"
  by (cases parsed) (auto simp: checkSingleIssuerShape_def well_laid_out_def result_iff)

lemma validateSchema_Inr_iff [result_iff]:
  "validateSchema ld configSchema data = Inr u \<longleftrightarrow> schema_accepts ld configSchema data"
  by (auto simp: validateSchema_def schema_accepts_def result_iff)

lemma issuer_defaulted_iff: "issuer_defaulted i i' \<longleftrightarrow> i' = default_issuer i"
  by (cases i; cases i')
    (auto simp: issuer_defaulted_def default_issuer_fields or_default_def IsPreset_def issuer_literals
      GitHubAuditClaims_def)

lemma defaulted_iff: "defaulted port raw cfg \<longleftrightarrow> cfg = applyDefaults port raw"
proof -
  have "list_all2 issuer_defaulted is js \<longleftrightarrow> js = map default_issuer is" for "is" js
    by (induction "is" arbitrary: js) (auto simp: list_all2_Cons1 issuer_defaulted_iff)
  then show ?thesis
    by (cases cfg; cases "cfg_server cfg"; cases "cfg_oidc cfg"; cases "cfg_policy cfg"; cases "cfg_server raw")
      (auto simp: defaulted_def applyDefaults_def or_default_def)
qed

text \<open>C21. Loading succeeds exactly when the document does not use the single-issuer layout and every
  policy names an issuer, it satisfies the embedded schema, it decodes, and the configuration with its
  defaults filled in (\<open>defaulted\<close>, field by field) meets every semantic rule (\<open>config_ok\<close>: canonical
  https issuer URLs, unique names, bounds on lifetimes and skew, a non-preset issuer never on GitHub's
  host and always with \<open>claims\<close> and \<open>require\<close>, policies of known issuers with catalog permissions); the
  result is that configuration. The right-hand side is written without the operations of the
  package.\<close>

theorem LoadFromBytes_iff:
  "LoadFromBytes ld url_parse schema port data = Inr cfg \<longleftrightarrow>
    well_laid_out (yaml_shape ld data) \<and> schema_accepts ld schema data \<and>
    (\<exists>raw. yaml_config ld data = Inr raw \<and> defaulted port raw cfg) \<and> config_ok url_parse cfg"
  by (auto simp: LoadFromBytes_def Let_def result_iff defaulted_iff)

text \<open>The defaults are complete and stable: applying them to a configuration that has them changes
  nothing, whatever the port; and they touch only what is unset.\<close>

theorem applyDefaults_idempotent:
  "applyDefaults port' (applyDefaults port cfg) = applyDefaults port cfg"
proof -
  have set: "GitHubIssuerURL \<noteq> ''''" "GitHubClaims \<noteq> []"
    by (simp_all add: GitHubIssuerURL_def GitHubClaims_def githubClaims_def)
  have keep: "IsPreset (iss\<lparr>iss_issuer := s\<rparr>) = IsPreset iss" "IsPreset (iss\<lparr>iss_claims := cs\<rparr>) = IsPreset iss"
    "IsPreset (iss\<lparr>iss_audit_claims := cs\<rparr>) = IsPreset iss" "IsPreset (iss\<lparr>iss_algorithms := cs\<rparr>) = IsPreset iss"
    "IsPreset (iss\<lparr>iss_max_lifetime := n\<rparr>) = IsPreset iss" for iss :: OIDCIssuer and s cs n
    by (simp_all add: IsPreset_def)
  have "default_issuer (default_issuer iss) = default_issuer iss" for iss :: OIDCIssuer
    by (simp add: default_issuer_fields keep set)
  then show ?thesis by (simp add: applyDefaults_def)
qed

text \<open>C22. What a loaded configuration says of its issuers. A preset issuer's URL is GitHub's issuer URL
  or an enterprise path under it (\<open>/\<close> and a slug: lowercase words joined by single hyphens, so no
  further segment and no other host), and it exposes exactly the fixed claims. Any other issuer has a
  canonical https URL on another host, lists its claims and pins at least one of them. Two issuers
  never share a name or a URL.\<close>

theorem loaded_issuers:
  assumes load: "LoadFromBytes ld url_parse schema port data = Inr cfg"
    and iss: "iss \<in> set (oidc_issuers (cfg_oidc cfg))"
  shows "(IsPreset iss \<longrightarrow> iss_claims iss = GitHubClaims \<and> iss_audit_claims iss = GitHubAuditClaims \<and>
        (iss_issuer iss = ''https://token.actions.githubusercontent.com'' \<or>
         (\<exists>slug. iss_issuer iss = ''https://token.actions.githubusercontent.com/'' @ slug \<and>
           enterprise_slug slug))) \<and>
    (\<not> IsPreset iss \<longrightarrow> gm_lookup (iss_require iss) \<noteq> Map.empty \<and> iss_claims iss \<noteq> [] \<and>
        (\<exists>u. canonical_url url_parse (iss_issuer iss) u \<and>
          url_hostname u \<noteq> ''token.actions.githubusercontent.com'')) \<and>
    (\<forall>iss'\<in>set (oidc_issuers (cfg_oidc cfg)).
        iss_name iss' = iss_name iss \<or> iss_issuer iss' = iss_issuer iss \<longrightarrow> iss' = iss)"
proof (intro conjI)
  obtain raw where raw: "cfg = applyDefaults port raw" and cfg: "config_ok url_parse cfg"
    by (rule LoadFromBytes_Inr [OF load])
  from cfg iss have ok: "issuer_ok url_parse iss" by (simp add: config_ok_def)
  from iss raw obtain iss0 where "iss = default_issuer iss0" by (auto simp: applyDefaults_def)
  then have "IsPreset iss \<longrightarrow> iss_audit_claims iss = GitHubAuditClaims"
    by (simp add: default_issuer_def Let_def IsPreset_def)
  with ok show "IsPreset iss \<longrightarrow> iss_claims iss = GitHubClaims \<and> iss_audit_claims iss = GitHubAuditClaims \<and>
        (iss_issuer iss = ''https://token.actions.githubusercontent.com'' \<or>
         (\<exists>slug. iss_issuer iss = ''https://token.actions.githubusercontent.com/'' @ slug \<and>
           enterprise_slug slug))"
    by (auto simp: issuer_ok_def preset_ok_def IsPreset_def issuer_literals)
  show "\<not> IsPreset iss \<longrightarrow> gm_lookup (iss_require iss) \<noteq> Map.empty \<and> iss_claims iss \<noteq> [] \<and>
        (\<exists>u. canonical_url url_parse (iss_issuer iss) u \<and>
          url_hostname u \<noteq> ''token.actions.githubusercontent.com'')"
    using ok by (auto simp: issuer_ok_def plain_ok_def IsPreset_def issuer_literals)
  show "\<forall>iss'\<in>set (oidc_issuers (cfg_oidc cfg)).
        iss_name iss' = iss_name iss \<or> iss_issuer iss' = iss_issuer iss \<longrightarrow> iss' = iss"
    using cfg iss by (auto simp: config_ok_def distinct_map dest: inj_onD)
qed

theorem loaded_issuers_witness:
  "\<exists>iss\<in>set (oidc_issuers (cfg_oidc sample_config)). \<not> IsPreset iss \<and> gm_lookup (iss_require iss) \<noteq> Map.empty"
proof -
  have "default_issuer sample_plain_issuer = sample_plain_issuer" by code_simp
  then have iss: "sample_plain_issuer \<in> set (oidc_issuers (cfg_oidc sample_config))"
    by (simp add: sample_config_def sample_raw_config_def applyDefaults_def)
  have "\<not> IsPreset sample_plain_issuer" by (simp add: sample_plain_issuer_def IsPreset_def GitHubPreset_def)
  with loaded_issuers [OF sample_loaded iss] iss show ?thesis by blast
qed

end
