(* ===== verification/Go_Time.thy ===== *)
theory Go_Time
  imports Complex_Main "HOL-Library.Word"
begin

text \<open>
  The part of Go's package \<open>time\<close> the broker uses. A \<open>time.Time\<close> is an integer, the
  nanoseconds since the Unix epoch; the values the broker handles (\<open>NumericDate\<close> claims up to
  \<open>2^53\<close> seconds and the clock) are far inside the range of Go's representation, whose seconds
  are an \<open>int64\<close>. A \<open>time.Duration\<close> is a signed 64-bit count of nanoseconds: here an integer
  in that range, with the wrap-around of its arithmetic and the saturation of
  \<open>Time.Sub\<close> written out.
\<close>

type_synonym time = int
type_synonym duration = int

definition wrap64 :: "int \<Rightarrow> int" where
  "wrap64 n = sint (word_of_int n :: 64 word)"

definition minDuration :: duration where "minDuration = - (2 ^ 63)"
definition maxDuration :: duration where "maxDuration = 2 ^ 63 - 1"
definition Second :: duration where "Second = 1000000000"

text \<open>\<open>time.Duration(n) * time.Second\<close>, unary minus, \<open>t.Add(d)\<close>, \<open>t.Sub(u)\<close> and \<open>time.Unix(sec, 0)\<close>.\<close>

definition seconds :: "int \<Rightarrow> duration" where
  "seconds n = wrap64 (n * Second)"

definition dur_neg :: "duration \<Rightarrow> duration" where
  "dur_neg d = wrap64 (- d)"

definition time_add :: "time \<Rightarrow> duration \<Rightarrow> time" where
  "time_add t d = t + d"

definition time_sub :: "time \<Rightarrow> time \<Rightarrow> duration" where
  "time_sub t u =
     (let d = t - u in if d < minDuration then minDuration else if d > maxDuration then maxDuration else d)"

definition time_unix :: "int \<Rightarrow> time" where
  "time_unix sec = sec * Second"

text \<open>The zero \<open>time.Time\<close>: January 1 of the year 1.\<close>

definition zero_time :: time where
  "zero_time = - 62135596800 * Second"

lemma wrap64_id: "- (2 ^ 63) \<le> n \<Longrightarrow> n < 2 ^ 63 \<Longrightarrow> wrap64 n = n"
  by (simp add: wrap64_def sint_sbintrunc' signed_take_bit_int_eq_self)

lemma seconds_exact: "0 \<le> n \<Longrightarrow> n \<le> 9000000000 \<Longrightarrow> seconds n = n * Second"
  by (simp add: seconds_def Second_def wrap64_id)

lemma seconds_nonneg: "0 \<le> n \<Longrightarrow> n \<le> 9000000000 \<Longrightarrow> 0 \<le> seconds n"
  by (simp add: seconds_exact Second_def)

lemma dur_neg_exact: "- (2 ^ 63) < d \<Longrightarrow> d < 2 ^ 63 \<Longrightarrow> dur_neg d = - d"
  by (simp add: dur_neg_def wrap64_id)

text \<open>A multiplication beyond the range wraps: a lifetime of 10^10 seconds becomes negative.\<close>

lemma seconds_wraps: "seconds 10000000000 < 0"
  by (simp add: seconds_def Second_def wrap64_def)

text \<open>Against a bound inside the range, the saturated difference compares like the exact one.\<close>

lemma time_sub_bounded_iff:
  assumes "0 \<le> b" and "b < maxDuration"
  shows "(time_sub t u < 0 \<or> time_sub t u > b) \<longleftrightarrow> \<not> (0 \<le> t - u \<and> t - u \<le> b)"
  using assms by (auto simp: time_sub_def Let_def minDuration_def maxDuration_def)

lemma time_sub_ge_iff:
  assumes "b \<le> maxDuration" and "minDuration < b"
  shows "time_sub t u < b \<longleftrightarrow> t - u < b"
  using assms by (auto simp: time_sub_def Let_def)

end
