(* ===== verification/Discovery.thy ===== *)
theory Discovery
  imports Config Go_Time
begin

text \<open>
  The package \<open>internal/auth\<close>, file \<open>discovery.go\<close>: OIDC discovery over a restricted HTTP
  client. \<open>RoundTrip\<close> is the transport's method; its guard (the part before the base round
  tripper runs, with the critical section under the mutex) is \<open>admit\<close>. The mutex serialises
  the critical sections, so concurrent requests are a sequence of \<open>admit\<close> steps; each reads the
  monotonic clock twice, for \<open>time.Since\<close> and for \<open>time.Now\<close>. The loop of the client over
  redirects is \<open>client_do\<close>.

  Parameters: the provider library (\<open>oidc.NewProvider\<close> and \<open>Provider.Claims\<close>), \<open>url.Parse\<close>
  and the base round tripper.
\<close>

section \<open>Transport\<close>

definition maxRedirects :: nat where "maxRedirects = 3"
definition maxResponseBytes :: nat where "maxResponseBytes = 1 * 2 ^ 20"
definition requestTimeout :: duration where "requestTimeout = 10 * Second"
definition discoveryTimeout :: duration where "discoveryTimeout = 15 * Second"
definition jwksFetchInterval :: duration where "jwksFetchInterval = 30 * Second"

record transport =
  tr_jwks_url :: string
  tr_last_fetch :: time

record http_get =
  get_scheme :: string
  get_url :: string

datatype trip_error =
    NotHttps string
  | Throttled
  | BaseFailed string

record 'b response =
  resp_body :: 'b
  resp_limit :: nat

definition admit :: "transport \<Rightarrow> http_get \<Rightarrow> time \<Rightarrow> time \<Rightarrow> (trip_error + unit) \<times> transport" where
  "admit t req since_clock now_clock =
     (if get_scheme req \<noteq> ''https'' then (Inl (NotHttps (get_url req)), t)
      else if tr_jwks_url t \<noteq> '''' \<and> get_url req = tr_jwks_url t then
        (let throttled = time_sub since_clock (tr_last_fetch t) < jwksFetchInterval;
             t' = (if \<not> throttled then t\<lparr>tr_last_fetch := now_clock\<rparr> else t)
         in if throttled then (Inl Throttled, t') else (Inr (), t'))
      else (Inr (), t))"

definition RoundTrip ::
  "(http_get \<Rightarrow> string + 'b) \<Rightarrow> transport \<Rightarrow> http_get \<Rightarrow> time \<Rightarrow> time \<Rightarrow>
   (trip_error + 'b response) \<times> transport" where
  "RoundTrip base t req since_clock now_clock =
     (case admit t req since_clock now_clock of
        (Inl e, t') \<Rightarrow> (Inl e, t')
      | (Inr _, t') \<Rightarrow>
          (case base req of
             Inl e \<Rightarrow> (Inl (BaseFailed e), t')
           | Inr body \<Rightarrow> (Inr \<lparr>resp_body = body, resp_limit = maxResponseBytes\<rparr>, t')))"

text \<open>\<open>via\<close> is the number of requests already made, as \<open>net/http\<close> passes them.\<close>

definition CheckRedirect :: "nat \<Rightarrow> nat + unit" where
  "CheckRedirect via = (if via > maxRedirects then Inl maxRedirects else Inr ())"

text \<open>
  The requests \<open>http.Client\<close> makes to a server that answers with \<open>n\<close> redirects in a row:
  before each it asks \<open>CheckRedirect\<close> with the requests made so far.
\<close>

fun client_requests :: "nat \<Rightarrow> nat \<Rightarrow> nat" where
  "client_requests made 0 = made"
| "client_requests made (Suc n) =
     (case CheckRedirect made of Inl _ \<Rightarrow> made | Inr _ \<Rightarrow> client_requests (Suc made) n)"

text \<open>
  The loop of \<open>http.Client\<close> over one request: send it through the transport; if the answer is a
  redirect, ask \<open>CheckRedirect\<close> with the requests made so far and follow it. Nothing in the loop
  itself bounds it, so it is a partial function. The server is arbitrary: its answer may depend on all
  earlier requests; \<open>redirect\<close> is how \<open>net/http\<close> reads the next request from a response. The result
  comes with the transport and the requests tried.
\<close>

datatype client_error = TripFailed trip_error | TooManyRedirects nat

partial_function (option) client_do ::
  "('b \<Rightarrow> http_get option) \<Rightarrow> (http_get list \<Rightarrow> http_get \<Rightarrow> string + 'b) \<Rightarrow> (nat \<Rightarrow> time \<times> time) \<Rightarrow>
   transport \<Rightarrow> http_get list \<Rightarrow> http_get \<Rightarrow>
   ((client_error + 'b response) \<times> transport \<times> http_get list) option" where
  "client_do redirect server clock t via req =
     (case RoundTrip (server via) t req (fst (clock (length via))) (snd (clock (length via))) of
        (Inl e, t') \<Rightarrow> Some (Inl (TripFailed e), t', via @ [req])
      | (Inr resp, t') \<Rightarrow>
          (case redirect (resp_body resp) of
             None \<Rightarrow> Some (Inr resp, t', via @ [req])
           | Some next_req \<Rightarrow>
               (case CheckRedirect (length (via @ [req])) of
                  Inl n \<Rightarrow> Some (Inl (TooManyRedirects n), t', via @ [req])
                | Inr _ \<Rightarrow> client_do redirect server clock t' (via @ [req]) next_req)))"

definition newClient :: transport where
  "newClient = \<lparr>tr_jwks_url = '''', tr_last_fetch = zero_time\<rparr>"

section \<open>Discovery\<close>

datatype discovery_error =
    ProviderFailed string
  | ClaimsFailed string
  | JwksNotHttps string

record ('p) provider_lib =
  new_provider :: "transport \<Rightarrow> string \<Rightarrow> string + 'p"
  provider_jwks_uri :: "'p \<Rightarrow> string + string"

record key_set =
  ks_jwks_uri :: string
  ks_transport :: transport

definition discover ::
  "'p provider_lib \<Rightarrow> (string \<Rightarrow> url option) \<Rightarrow> string \<Rightarrow> discovery_error + key_set" where
  "discover lib url_parse issuerURL =
     (let tr = newClient in
      bind_r (map_err ProviderFailed (new_provider lib tr issuerURL)) (\<lambda>provider.
      bind_r (map_err ClaimsFailed (provider_jwks_uri lib provider)) (\<lambda>jwks_uri.
      (case url_parse jwks_uri of
         None \<Rightarrow> Inl (JwksNotHttps jwks_uri)
       | Some u \<Rightarrow>
           if url_scheme u \<noteq> ''https'' \<or> url_host u = '''' then Inl (JwksNotHttps jwks_uri)
           else Inr \<lparr>ks_jwks_uri = jwks_uri, ks_transport = tr\<lparr>tr_jwks_url := url_string u\<rparr>\<rparr>))))"

section \<open>The throttle over any sequence of requests\<close>

text \<open>
  One critical section: the two clock readings, the request and its outcome. The clock does not
  run backwards between and within critical sections.
\<close>

type_synonym fetch = "time \<times> time \<times> http_get \<times> (trip_error + unit)"

inductive throttle_run :: "transport \<Rightarrow> time \<Rightarrow> fetch list \<Rightarrow> transport \<Rightarrow> bool" where
  run_nil: "throttle_run t clock [] t"
| run_step: "clock \<le> c1 \<Longrightarrow> c1 \<le> c2 \<Longrightarrow> admit t req c1 c2 = (res, t') \<Longrightarrow>
     throttle_run t' c2 fs t'' \<Longrightarrow> throttle_run t clock ((c1, c2, req, res) # fs) t''"

inductive_cases throttle_run_ConsE: "throttle_run t clock (f # fs) t''"
inductive_simps throttle_run_Nil [simp]: "throttle_run t clock [] t'"

text \<open>The clock readings of the JWKS requests that were let through, in order.\<close>

fun jwks_fetches :: "string \<Rightarrow> fetch list \<Rightarrow> (time \<times> time) list" where
  "jwks_fetches url [] = []"
| "jwks_fetches url ((c1, c2, req, res) # fs) =
     (if get_url req = url \<and> res = Inr () then (c1, c2) # jwks_fetches url fs else jwks_fetches url fs)"

fun spaced :: "time \<Rightarrow> (time \<times> time) list \<Rightarrow> bool" where
  "spaced prev [] = True"
| "spaced prev ((c1, c2) # fs) = (jwksFetchInterval \<le> c1 - prev \<and> c1 \<le> c2 \<and> spaced c2 fs)"

lemma admit_jwks:
  assumes "admit t req c1 c2 = (res, t')" and "tr_jwks_url t \<noteq> ''''"
  shows "tr_jwks_url t' = tr_jwks_url t"
    and "get_url req = tr_jwks_url t \<and> res = Inr () \<Longrightarrow>
      tr_last_fetch t' = c2 \<and> jwksFetchInterval \<le> c1 - tr_last_fetch t"
    and "\<not> (get_url req = tr_jwks_url t \<and> res = Inr ()) \<Longrightarrow> tr_last_fetch t' = tr_last_fetch t"
proof -
  have iff: "time_sub c1 l < jwksFetchInterval \<longleftrightarrow> c1 - l < jwksFetchInterval" for l
    by (rule time_sub_ge_iff) (simp_all add: jwksFetchInterval_def Second_def minDuration_def maxDuration_def)
  show "tr_jwks_url t' = tr_jwks_url t"
    using assms by (auto simp: admit_def Let_def split: if_splits)
  show "get_url req = tr_jwks_url t \<and> res = Inr () \<Longrightarrow>
      tr_last_fetch t' = c2 \<and> jwksFetchInterval \<le> c1 - tr_last_fetch t"
    using assms by (auto simp: admit_def Let_def iff split: if_splits)
  show "\<not> (get_url req = tr_jwks_url t \<and> res = Inr ()) \<Longrightarrow> tr_last_fetch t' = tr_last_fetch t"
    using assms by (auto simp: admit_def Let_def split: if_splits)
qed

lemma throttle_run_spaced:
  assumes "throttle_run t clock fs t'" and "tr_jwks_url t \<noteq> ''''"
  shows "spaced (tr_last_fetch t) (jwks_fetches (tr_jwks_url t) fs)"
  using assms
proof (induction rule: throttle_run.induct)
  case (run_nil t clock)
  then show ?case by simp
next
  case (run_step clock c1 c2 t req res t' fs t'')
  note adm = admit_jwks [OF run_step.hyps(3) run_step.prems]
  from run_step.IH run_step.prems adm(1)
  have IH: "spaced (tr_last_fetch t') (jwks_fetches (tr_jwks_url t) fs)" by simp
  show ?case
  proof (cases "get_url req = tr_jwks_url t \<and> res = Inr ()")
    case True
    with adm(2) IH run_step.hyps(2) show ?thesis by auto
  next
    case False
    with adm(3) IH show ?thesis by auto
  qed
qed

lemma spaced_length:
  assumes "spaced prev fs" and "\<forall>(c1, c2)\<in>set fs. c1 \<le> hi"
  shows "jwksFetchInterval * int (length fs) \<le> max 0 (hi - prev)"
  using assms
proof (induction fs arbitrary: prev)
  case Nil
  then show ?case by simp
next
  case (Cons f fs)
  obtain c1 c2 where f: "f = (c1, c2)" by force
  from Cons f have "jwksFetchInterval * int (length fs) \<le> max 0 (hi - c2)"
    and "jwksFetchInterval \<le> c1 - prev" and "c1 \<le> c2" and "c1 \<le> hi" by auto
  then show ?case by (simp add: algebra_simps jwksFetchInterval_def Second_def)
qed

lemma client_requests_eq: "0 < made \<Longrightarrow> made \<le> 4 \<Longrightarrow> client_requests made n = min (made + n) 4"
  by (induction n arbitrary: made) (auto simp: CheckRedirect_def maxRedirects_def)


lemma RoundTrip_Inr:
  "RoundTrip base t req c1 c2 = (Inr resp, t') \<Longrightarrow>
    get_scheme req = ''https'' \<and> base req = Inr (resp_body resp) \<and> resp_limit resp = 2 ^ 20"
  by (auto simp: RoundTrip_def admit_def Let_def maxResponseBytes_def split: prod.splits sum.splits if_splits)

lemma RoundTrip_Inl:
  "RoundTrip base t req c1 c2 = (Inl e, t') \<Longrightarrow> get_scheme req = ''https'' \<or> e = NotHttps (get_url req)"
  by (auto simp: RoundTrip_def admit_def split: if_splits)

text \<open>What a finished request of the client is, by its result and the requests tried.\<close>

fun client_ended :: "('b \<Rightarrow> http_get option) \<Rightarrow> client_error + 'b response \<Rightarrow> http_get list \<Rightarrow> bool" where
  "client_ended redirect (Inr resp) reqs \<longleftrightarrow>
     get_scheme (last reqs) = ''https'' \<and> resp_limit resp = 2 ^ 20 \<and> redirect (resp_body resp) = None"
| "client_ended redirect (Inl (TooManyRedirects n)) reqs \<longleftrightarrow> n = 3 \<and> length reqs = 4"
| "client_ended redirect (Inl (TripFailed e)) reqs \<longleftrightarrow>
     get_scheme (last reqs) = ''https'' \<or> e = NotHttps (get_url (last reqs))"

lemma client_do_total:
  assumes "length via \<le> 3" and "list_all (\<lambda>q. get_scheme q = ''https'') via"
  shows "\<exists>res t' reqs. client_do redirect server clock t via req = Some (res, t', reqs) \<and>
    length via + 1 \<le> length reqs \<and> length reqs \<le> 4 \<and> hd reqs = hd (via @ [req]) \<and>
    list_all (\<lambda>q. get_scheme q = ''https'') (butlast reqs) \<and> client_ended redirect res reqs"
  using assms
proof (induction "3 - length via" arbitrary: via t req rule: less_induct)
  case less
  obtain r t1 where trip:
    "RoundTrip (server via) t req (fst (clock (length via))) (snd (clock (length via))) = (r, t1)" by force
  note simps = client_do.simps [of redirect server clock t via req, unfolded trip]
  show ?case
  proof (cases r)
    case (Inl e)
    from RoundTrip_Inl [OF trip [unfolded Inl]] less.prems show ?thesis
      by (simp add: simps Inl)
  next
    case (Inr resp)
    note ok = RoundTrip_Inr [OF trip [unfolded Inr]]
    consider (final) "redirect (resp_body resp) = None"
      | (stop) q where "redirect (resp_body resp) = Some q" "length via = 3"
      | (follow) q where "redirect (resp_body resp) = Some q" "length via \<le> 2"
      using less.prems(1) by fastforce
    then show ?thesis
    proof cases
      case final
      with ok less.prems show ?thesis by (simp add: simps Inr)
    next
      case stop
      then have "client_do redirect server clock t via req = Some (Inl (TooManyRedirects 3), t1, via @ [req])"
        by (simp add: simps Inr CheckRedirect_def maxRedirects_def)
      with stop less.prems show ?thesis by simp
    next
      case follow
      then have step: "client_do redirect server clock t via req = client_do redirect server clock t1 (via @ [req]) q"
        by (simp add: simps Inr CheckRedirect_def maxRedirects_def)
      have "hd ((via @ [req]) @ [q]) = hd (via @ [req])" by (cases via) simp_all
      with less.hyps [of "via @ [req]" t1 q] follow(2) less.prems ok show ?thesis
        unfolding step by fastforce
    qed
  qed
qed

section \<open>Properties of discovery\<close>

text \<open>The transport a discovered key set fetches with.\<close>

lemma discover_Inr_iff:
  "discover lib url_parse issuerURL = Inr ks \<longleftrightarrow>
    (\<exists>p uri u. new_provider lib newClient issuerURL = Inr p \<and> provider_jwks_uri lib p = Inr uri \<and>
      url_parse uri = Some u \<and> url_scheme u = ''https'' \<and> url_host u \<noteq> '''' \<and>
      ks = \<lparr>ks_jwks_uri = uri, ks_transport = newClient\<lparr>tr_jwks_url := url_string u\<rparr>\<rparr>)"
  by (auto simp: discover_def Let_def result_iff case_option_Inr_iff)

text \<open>C19. The key set is fetched at most once every 30 seconds: over any sequence of requests through
  the transport of a discovered issuer, with any clock readings that do not run backwards, two
  requests for the key set that are let through are at least 30 seconds apart; so in a time span of
  \<open>d\<close> nanoseconds after the first there are at most \<open>d / 30 s + 1\<close> of them, however many tokens with
  unknown key ids arrive.\<close>

theorem jwks_fetch_rate:
  assumes disc: "discover lib url_parse issuerURL = Inr ks" and url: "\<And>u. url_parse (ks_jwks_uri ks) = Some u \<Longrightarrow> url_string u \<noteq> ''''"
    and run: "throttle_run (ks_transport ks) clock fs t'"
    and first: "jwks_fetches (tr_jwks_url (ks_transport ks)) fs = (c1, c2) # rest"
    and hi: "\<forall>(c, c')\<in>set rest. c \<le> c2 + d" and d: "0 \<le> d"
  shows "spaced c2 rest \<and> 30 * Second * int (length rest) \<le> d"
proof -
  from disc url have "tr_jwks_url (ks_transport ks) \<noteq> ''''" by (auto simp: discover_Inr_iff newClient_def)
  from throttle_run_spaced [OF run this] first have "spaced c2 rest" by simp
  with spaced_length [of c2 rest "c2 + d"] hi d show ?thesis by (auto simp: jwksFetchInterval_def)
qed

text \<open>What a client sends and reads is bounded: a request that comes back with a response was an
  https request, its body is read up to 1 MiB, and a redirect chain of any length makes at most four
  requests; a request that is not https is refused in every state of the transport.\<close>

theorem client_bounded:
  "(RoundTrip base t req c1 c2 = (Inr resp, t') \<longrightarrow>
      get_scheme req = ''https'' \<and> base req = Inr (resp_body resp) \<and> resp_limit resp = 2 ^ 20) \<and>
    (get_scheme req \<noteq> ''https'' \<longrightarrow> RoundTrip base t req c1 c2 = (Inl (NotHttps (get_url req)), t)) \<and>
    client_requests 1 n = min (n + 1) 4"
  by (auto simp: RoundTrip_def admit_def Let_def maxResponseBytes_def client_requests_eq
      split: prod.splits sum.splits if_splits)

text \<open>C20. Every request of the client returns: against any server, even one that answers every request with
  another redirect, the loop of the client ends with a response or an error after at most four
  requests. Every request but the last went out over https, and a response is only ever returned
  for https requests, its body limited to 1 MiB.\<close>

theorem client_do_returns:
  "\<exists>res t' reqs. client_do redirect server clock t [] req = Some (res, t', reqs) \<and>
    1 \<le> length reqs \<and> length reqs \<le> 4 \<and> hd reqs = req \<and>
    list_all (\<lambda>q. get_scheme q = ''https'') (butlast reqs) \<and>
    client_ended redirect res reqs"
  using client_do_total [of "[]" redirect server clock t req] by simp

definition sample_get :: "string \<Rightarrow> http_get" where
  "sample_get scheme = \<lparr>get_scheme = scheme, get_url = scheme @ ''://idp.example/keys''\<rparr>"

theorem client_bounded_witness:
  "RoundTrip (\<lambda>q. Inr ()) newClient (sample_get ''http'') 0 0 = (Inl (NotHttps ''http://idp.example/keys''), newClient)"
  using client_bounded [of "\<lambda>q. Inr ()" newClient "sample_get ''http''" 0 0] by (simp add: sample_get_def)

text \<open>A provider whose key set is at a fixed URL, and three requests for it: the second is throttled.\<close>

definition sample_provider :: "unit provider_lib" where
  "sample_provider = \<lparr>new_provider = (\<lambda>tr url. Inr ()), provider_jwks_uri = (\<lambda>p. Inr ''https://idp.example/keys'')\<rparr>"

definition sample_key_url :: "string \<Rightarrow> url option" where
  "sample_key_url raw = (if raw = ''https://idp.example/keys'' then Some (sample_url raw ''idp.example'' ''/keys'') else None)"

definition sample_key_set :: key_set where
  "sample_key_set = \<lparr>ks_jwks_uri = ''https://idp.example/keys'',
     ks_transport = newClient\<lparr>tr_jwks_url := ''https://idp.example/keys''\<rparr>\<rparr>"

definition sample_fetches :: "fetch list" where
  "sample_fetches = [(0, 0, sample_get ''https'', Inr ()), (10 * Second, 10 * Second, sample_get ''https'', Inl Throttled),
     (30 * Second, 31 * Second, sample_get ''https'', Inr ())]"

lemma sample_run: "\<exists>t'. throttle_run (ks_transport sample_key_set) 0 sample_fetches t'"
  unfolding sample_fetches_def
  by (intro exI, (rule run_step, simp add: Second_def, simp add: Second_def, code_simp)+) (rule run_nil)

lemma sample_discovered: "discover sample_provider sample_key_url ''https://idp.example'' = Inr sample_key_set"
  by (simp add: discover_Inr_iff sample_provider_def sample_key_url_def sample_url_def sample_key_set_def)

theorem jwks_fetch_rate_witness:
  "jwks_fetches ''https://idp.example/keys'' sample_fetches = [(0, 0), (30 * Second, 31 * Second)] \<and>
    spaced 0 [(30 * Second, 31 * Second)]"
proof -
  have fetches: "jwks_fetches ''https://idp.example/keys'' sample_fetches = [(0, 0), (30 * Second, 31 * Second)]"
    by (simp add: sample_fetches_def sample_get_def)
  obtain t' where run: "throttle_run (ks_transport sample_key_set) 0 sample_fetches t'" using sample_run by blast
  have url: "url_string u \<noteq> ''''" if "sample_key_url (ks_jwks_uri sample_key_set) = Some u" for u
    using that by (auto simp: sample_key_url_def sample_key_set_def sample_url_def)
  have "spaced 0 [(30 * Second, 31 * Second)]"
    using jwks_fetch_rate [OF sample_discovered url run, of 0 0 "[(30 * Second, 31 * Second)]" "30 * Second"] fetches
    by (simp add: sample_key_set_def Second_def)
  with fetches show ?thesis by simp
qed

end
