(* ===== verification/Cel_Ast.thy ===== *)
theory Cel_Ast
  imports Go_Prelude
begin

text \<open>
  The checked syntax tree of a CEL condition, as the policy package reads it through the
  interface of \<open>cel-go/common/ast\<close>: one constructor per node kind (\<open>IdentKind\<close>,
  \<open>LiteralKind\<close>, \<open>SelectKind\<close>, \<open>CallKind\<close>, \<open>ListKind\<close>, \<open>MapKind\<close>, \<open>StructKind\<close>,
  \<open>ComprehensionKind\<close>, \<open>UnspecifiedExprKind\<close>), each with the node's identifier and the parts its
  accessor returns. A \<open>NavigableExpr\<close> is a node with the chain of its ancestors, nearest first.
  \<open>MatchDescendants\<close> visits a node's descendants, the node itself last.
\<close>

datatype cel_val =
    VString string
  | VBool bool
  | VInt int
  | VList "cel_val list"
  | VMap "(cel_val \<times> cel_val) list"
  | VOther string

datatype expr =
    Ident int string
  | Literal int cel_val
  | Select int expr string bool
  | Call int string "expr option" "expr list"
  | ListLit int "expr list"
  | MapLit int "(expr \<times> expr) list"
  | StructLit int string "(string \<times> expr) list"
  | Comprehension int string string string expr expr expr expr expr
  | Unspecified int

fun expr_id :: "expr \<Rightarrow> int" where
  "expr_id (Ident i _) = i"
| "expr_id (Literal i _) = i"
| "expr_id (Select i _ _ _) = i"
| "expr_id (Call i _ _ _) = i"
| "expr_id (ListLit i _) = i"
| "expr_id (MapLit i _) = i"
| "expr_id (StructLit i _ _) = i"
| "expr_id (Comprehension i _ _ _ _ _ _ _ _) = i"
| "expr_id (Unspecified i) = i"

text \<open>
  A call's children are its target, when it is a member call, and its arguments; a comprehension's
  are the range, the initial accumulator, the loop condition, the step and the result.
\<close>

fun children :: "expr \<Rightarrow> expr list" where
  "children (Ident _ _) = []"
| "children (Literal _ _) = []"
| "children (Select _ e _ _) = [e]"
| "children (Call _ _ t as) = (case t of None \<Rightarrow> [] | Some e \<Rightarrow> [e]) @ as"
| "children (ListLit _ es) = es"
| "children (MapLit _ kvs) = concat (map (\<lambda>(k, v). [k, v]) kvs)"
| "children (StructLit _ _ fs) = map snd fs"
| "children (Comprehension _ _ _ _ r i c s u) = [r, i, c, s, u]"
| "children (Unspecified _) = []"

lemma size_children_map:
  "(k, v) \<in> set kvs \<Longrightarrow> size k < Suc (size_list (size_prod size size) kvs) \<and>
    size v < Suc (size_list (size_prod size size) kvs)"
  by (induction kvs) auto

lemma size_children_struct:
  "(f, v) \<in> set fs \<Longrightarrow> size v < Suc (size_list (size_prod (\<lambda>_. 0) size) fs)"
  by (induction fs) auto

lemma size_arg: "x \<in> set as \<Longrightarrow> size x < Suc (n + size_list size as)"
  by (induction as) auto

lemma size_children [termination_simp]: "c \<in> set (children e) \<Longrightarrow> size c < size e"
proof (cases e)
  case (Call i f t as)
  assume c: "c \<in> set (children e)"
  show ?thesis
  proof (cases "c \<in> set as")
    case True
    then have "size c \<le> size_list size as" by (simp add: size_list_estimation')
    with Call show ?thesis by simp
  next
    case False
    with c Call show ?thesis by (auto split: option.splits)
  qed
next
  case (ListLit i es)
  assume "c \<in> set (children e)"
  then have "size c \<le> size_list size es" by (simp add: ListLit size_list_estimation')
  with ListLit show ?thesis by simp
qed (auto dest: size_children_map size_children_struct)

function descendants :: "expr \<Rightarrow> expr list" where
  "descendants e = concat (map descendants (children e)) @ [e]"
  by pat_completeness auto
termination
  by (relation "measure size") (auto simp: size_children)

declare descendants.simps [simp del]

type_synonym nav = "expr \<times> expr list"

definition nav_children :: "nav \<Rightarrow> nav list" where
  "nav_children n = map (\<lambda>c. (c, fst n # snd n)) (children (fst n))"

function nav_descendants :: "nav \<Rightarrow> nav list" where
  "nav_descendants n = concat (map nav_descendants (nav_children n)) @ [n]"
  by pat_completeness auto
termination
  by (relation "measure (size \<circ> fst)") (auto simp: nav_children_def size_children)

declare nav_descendants.simps [simp del]

definition nav_parent :: "nav \<Rightarrow> nav option" where
  "nav_parent n = (case snd n of [] \<Rightarrow> None | p # ps \<Rightarrow> Some (p, ps))"

lemma in_descendants_iff:
  "d \<in> set (descendants e) \<longleftrightarrow> d = e \<or> (\<exists>c\<in>set (children e). d \<in> set (descendants c))"
  by (subst descendants.simps) auto

lemma self_in_descendants [simp]: "e \<in> set (descendants e)"
  by (simp add: in_descendants_iff [of e e])

lemma child_in_descendants: "c \<in> set (children e) \<Longrightarrow> c \<in> set (descendants e)"
  using in_descendants_iff [of c e] self_in_descendants by blast

lemma descendants_trans:
  "b \<in> set (descendants a) \<Longrightarrow> c \<in> set (descendants b) \<Longrightarrow> c \<in> set (descendants a)"
proof (induction a rule: descendants.induct)
  case (1 a)
  show ?case
  proof (cases "b = a")
    case True
    with "1.prems" show ?thesis by simp
  next
    case False
    with "1.prems" obtain x where "x \<in> set (children a)" "b \<in> set (descendants x)"
      by (auto simp: in_descendants_iff [of b a])
    with "1.IH" "1.prems" show ?thesis by (auto simp: in_descendants_iff [of c a])
  qed
qed

lemma nav_descendants_fst: "map fst (nav_descendants n) = descendants (fst n)"
proof (induction n rule: nav_descendants.induct)
  case (1 n)
  have "map fst (nav_descendants n)
    = concat (map (\<lambda>m. map fst (nav_descendants m)) (nav_children n)) @ [fst n]"
    by (subst nav_descendants.simps) (simp add: map_concat o_def)
  also have "\<dots> = concat (map (\<lambda>m. descendants (fst m)) (nav_children n)) @ [fst n]"
    using "1.IH" by (simp cong: map_cong)
  also have "\<dots> = descendants (fst n)"
    by (subst (2) descendants.simps) (simp add: nav_children_def o_def)
  finally show ?case .
qed

text \<open>A child of a descendant occurs with that descendant as its parent.\<close>

lemma nav_descendants_child:
  "(d, ps) \<in> set (nav_descendants n) \<Longrightarrow> c \<in> set (children d) \<Longrightarrow>
    (c, d # ps) \<in> set (nav_descendants n)"
proof (induction n rule: nav_descendants.induct)
  case (1 n)
  show ?case
  proof (cases "(d, ps) = n")
    case True
    then have "(c, d # ps) \<in> set (nav_children n)"
      using "1.prems" by (auto simp: nav_children_def)
    moreover have "m \<in> set (nav_descendants m)" for m
      by (subst nav_descendants.simps) simp
    ultimately show ?thesis by (subst nav_descendants.simps) auto
  next
    case False
    with "1.prems"(1) obtain m where m: "m \<in> set (nav_children n)" "(d, ps) \<in> set (nav_descendants m)"
      by (subst (asm) nav_descendants.simps) auto
    from "1.IH" [OF m(1) m(2) "1.prems"(2)] m(1) show ?thesis
      by (subst nav_descendants.simps) auto
  qed
qed

lemma nav_descendants_ex: "d \<in> set (descendants (fst n)) \<Longrightarrow> \<exists>ps. (d, ps) \<in> set (nav_descendants n)"
  unfolding nav_descendants_fst [symmetric] by auto

end
