(* ===== verification/Policy_Check.thy ===== *)
theory Policy_Check
  imports Config Cel_Ast
begin

text \<open>
  The structural checks of \<open>internal/policy/engine.go\<close> on a compiled condition:
  \<open>checkCondition\<close> with its helpers, and the condition warnings. The constants of
  \<open>cel-go/common/operators\<close> and \<open>overloads\<close> that name the functions of a call are the strings
  below.
\<close>

section \<open>Function names\<close>

definition LogicalOr :: string where "LogicalOr = ''_||_''"
definition LogicalAnd :: string where "LogicalAnd = ''_&&_''"
definition Equals :: string where "Equals = ''_==_''"
definition In :: string where "In = ''@in''"
definition Index :: string where "Index = ''_[_]''"
definition Add :: string where "Add = ''_+_''"
definition Less :: string where "Less = ''_<_''"
definition LessEquals :: string where "LessEquals = ''_<=_''"
definition Greater :: string where "Greater = ''_>_''"
definition GreaterEquals :: string where "GreaterEquals = ''_>=_''"
definition StartsWith :: string where "StartsWith = ''startsWith''"
definition EndsWith :: string where "EndsWith = ''endsWith''"
definition Contains :: string where "Contains = ''contains''"
definition Matches :: string where "Matches = ''matches''"
definition Size :: string where "Size = ''size''"

lemmas operator_defs = LogicalOr_def LogicalAnd_def Equals_def In_def Index_def Add_def Less_def
  LessEquals_def Greater_def GreaterEquals_def StartsWith_def EndsWith_def Contains_def Matches_def
  Size_def

definition VarCaller :: string where "VarCaller = ''caller''"
definition VarRequest :: string where "VarRequest = ''request''"

datatype condition_error =
    ShadowsVariable string
  | FunctionNotAllowed string
  | OrderingNotAllowed
  | CallerAccess
  | UndeclaredClaim string string
  | NotComparedToLiteral string
  | ResourceUnconstrained
  | CallerUnconstrained "string list" string

section \<open>Reading the tree\<close>

definition isIdent :: "expr \<Rightarrow> string \<Rightarrow> bool" where
  "isIdent e name = (case e of Ident _ s \<Rightarrow> trim_prefix s ''.'' = name | _ \<Rightarrow> False)"

definition isRequestField :: "expr \<Rightarrow> string \<Rightarrow> bool" where
  "isRequestField e field =
     (case e of Select _ operand f _ \<Rightarrow> f = field \<and> isIdent operand VarRequest | _ \<Rightarrow> False)"

definition is_test_only :: "expr \<Rightarrow> bool" where
  "is_test_only e = (case e of Select _ _ _ test \<Rightarrow> test | _ \<Rightarrow> False)"

definition isResourceRef :: "expr \<Rightarrow> bool" where
  "isResourceRef e =
     ((isRequestField e ''resource'' \<or> isRequestField e ''resources'') \<and> \<not> is_test_only e)"

definition references :: "expr \<Rightarrow> string \<Rightarrow> bool" where
  "references e name = (length (filter (\<lambda>d. isIdent d name) (descendants e)) > 0)"

definition stringLiteral :: "expr \<Rightarrow> string option" where
  "stringLiteral e = (case e of Literal _ (VString s) \<Rightarrow> Some s | _ \<Rightarrow> None)"

definition isStringLiteral :: "expr \<Rightarrow> bool" where
  "isStringLiteral e = (stringLiteral e \<noteq> None)"

definition callerClaim :: "expr \<Rightarrow> string option" where
  "callerClaim e =
     (case e of
        Select _ operand f test \<Rightarrow> if \<not> test \<and> isIdent operand VarCaller then Some f else None
      | Call _ fn _ args \<Rightarrow>
          if fn = Index \<and> length args = 2 \<and> isIdent (args ! 0) VarCaller
          then stringLiteral (args ! 1) else None
      | _ \<Rightarrow> None)"

section \<open>Warnings\<close>

datatype condition_warning = WarnDeprecatedResources | WarnResourcesShape

definition resourcesShapeMatcher :: "expr \<Rightarrow> bool" where
  "resourcesShapeMatcher e =
     (case e of
        Call _ fn target args \<Rightarrow>
          (fn = Size \<or> fn = Index) \<and>
          list_ex (\<lambda>op. isRequestField op ''resources'')
            ((case target of None \<Rightarrow> [] | Some t \<Rightarrow> [t]) @ args)
      | _ \<Rightarrow> False)"

definition conditionWarnings :: "expr \<Rightarrow> condition_warning list" where
  "conditionWarnings root =
     (if length (filter (\<lambda>e. isRequestField e ''resources'') (descendants root)) > 0
      then [WarnDeprecatedResources] else []) @
     (if length (filter resourcesShapeMatcher (descendants root)) > 0
      then [WarnResourcesShape] else [])"

section \<open>What a condition must constrain\<close>

text \<open>
  \<open>ref\<close> and \<open>other\<close> are the operands of a comparison, in either order; every \<open>||\<close> operand has
  to constrain, one \<open>&&\<close> operand suffices.
\<close>

function constrains_by :: "(expr \<Rightarrow> expr \<Rightarrow> bool) \<Rightarrow> expr \<Rightarrow> bool" where
  "constrains_by bound e =
     (case e of
        Call _ fn _ _ \<Rightarrow>
          (let args = children e in
           if fn = LogicalOr then \<not> list_ex (\<lambda>arg. \<not> constrains_by bound arg) args
           else if fn = LogicalAnd then list_ex (\<lambda>arg. constrains_by bound arg) args
           else if fn = Equals \<or> fn = In
           then length args = 2 \<and> (bound (args ! 0) (args ! 1) \<or> bound (args ! 1) (args ! 0))
           else False)
      | _ \<Rightarrow> False)"
  by pat_completeness auto
termination
  by (relation "measure (size \<circ> snd)") (auto dest: size_children intro: size_arg)

declare constrains_by.simps [simp del]

definition boundsResource :: "expr \<Rightarrow> expr \<Rightarrow> bool" where
  "boundsResource ref other = (isResourceRef ref \<and> \<not> references other VarRequest)"

text \<open>
  The operands of a left-nested chain of \<open>+\<close>, from the left: the loop appends the right operands
  while descending and reverses the list at the end.
\<close>

fun plus_operands :: "expr \<Rightarrow> expr list \<Rightarrow> expr list" where
  "plus_operands (Call i fn t [a, b]) ops =
     (if fn = Add then plus_operands a (b # ops) else Call i fn t [a, b] # ops)"
| "plus_operands e ops = e # ops"

definition literal_at :: "expr list \<Rightarrow> nat \<Rightarrow> string" where
  "literal_at ops i =
     (if i \<ge> length ops then '''' else case stringLiteral (ops ! i) of None \<Rightarrow> '''' | Some s \<Rightarrow> s)"

definition claim_at :: "expr list \<Rightarrow> nat \<Rightarrow> string" where
  "claim_at ops i =
     (if i \<ge> length ops then '''' else case callerClaim (ops ! i) of None \<Rightarrow> '''' | Some c \<Rightarrow> c)"

definition callerAnchored :: "expr \<Rightarrow> bool" where
  "callerAnchored e =
     (let ops = plus_operands e [] in
      if list_ex (\<lambda>op. callerClaim op = None \<and> \<not> isStringLiteral op) ops then False
      else if literal_at ops 0 = ''repo:'' \<and> claim_at ops 1 = ''repository'' then True
      else if literal_at ops 0 = ''repo:'' \<and> claim_at ops 1 = ''repository_owner''
        then has_prefix (literal_at ops 2) ''/''
      else if literal_at ops 0 = ''org:'' \<and> claim_at ops 1 = ''repository_owner'' then length ops = 2
      else False)"

definition boundsCaller :: "string list \<Rightarrow> expr \<Rightarrow> expr \<Rightarrow> bool" where
  "boundsCaller identity ref other =
     (case callerClaim ref of
        Some claim \<Rightarrow> claim \<in> set identity \<and> \<not> references other VarCaller
      | None \<Rightarrow>
          if \<not> isResourceRef ref then False
          else case other of
              ListLit _ es \<Rightarrow> \<not> list_ex (\<lambda>e. \<not> callerAnchored e) es
            | _ \<Rightarrow> callerAnchored other)"

definition comparedToLiteral :: "nav \<Rightarrow> bool" where
  "comparedToLiteral ref =
     (case nav_parent ref of
        None \<Rightarrow> False
      | Some sel \<Rightarrow>
          if \<not> isResourceRef (fst sel) then False
          else case nav_parent sel of
              None \<Rightarrow> False
            | Some cmp \<Rightarrow>
                (case fst cmp of
                   Call _ fn _ _ \<Rightarrow>
                     (let args = children (fst cmp) in
                      if length args \<noteq> 2 then False
                      else if fn = Equals then
                        (let other = (if expr_id (args ! 0) = expr_id (fst sel) then args ! 1 else args ! 0)
                         in isStringLiteral other)
                      else if fn = In then
                        expr_id (args ! 0) = expr_id (fst sel) \<and>
                        (case args ! 1 of
                           ListLit _ es \<Rightarrow> \<not> list_ex (\<lambda>e. \<not> isStringLiteral e) es
                         | _ \<Rightarrow> False)
                      else False)
                 | _ \<Rightarrow> False))"

definition identityClaims :: "OIDCIssuer \<Rightarrow> string list" where
  "identityClaims iss = (if IsPreset iss then GitHubIdentityClaims else [])"

section \<open>The check\<close>

definition check_shadowing :: "expr \<Rightarrow> condition_error + unit" where
  "check_shadowing e =
     (case e of
        Comprehension _ iterVar iterVar2 accuVar _ _ _ _ _ \<Rightarrow>
          each_r (\<lambda>v. if v = VarCaller \<or> v = VarRequest then Inl (ShadowsVariable v) else Inr ())
            [iterVar, iterVar2, accuVar]
      | _ \<Rightarrow> Inr ())"

definition check_function :: "expr \<Rightarrow> condition_error + unit" where
  "check_function e =
     (case e of
        Call _ fn _ _ \<Rightarrow>
          if fn = StartsWith \<or> fn = EndsWith \<or> fn = Contains \<or> fn = Matches
          then Inl (FunctionNotAllowed fn)
          else if (fn = Less \<or> fn = LessEquals \<or> fn = Greater \<or> fn = GreaterEquals) \<and>
            list_ex (\<lambda>arg. references arg VarCaller \<or> references arg VarRequest) (children e)
          then Inl OrderingNotAllowed
          else Inr ()
      | _ \<Rightarrow> Inr ())"

definition check_caller_read :: "OIDCIssuer \<Rightarrow> nav \<Rightarrow> condition_error + unit" where
  "check_caller_read iss ref =
     (if \<not> isIdent (fst ref) VarCaller then Inr ()
      else case nav_parent ref of
          None \<Rightarrow> Inl CallerAccess
        | Some parent \<Rightarrow>
            (case callerClaim (fst parent) of
               None \<Rightarrow> Inl CallerAccess
             | Some claim \<Rightarrow>
                 if claim \<notin> set (iss_claims iss) then Inl (UndeclaredClaim claim (iss_name iss))
                 else Inr ()))"

definition check_request_read :: "OIDCIssuer \<Rightarrow> nav \<Rightarrow> condition_error + unit" where
  "check_request_read iss ref =
     (if isIdent (fst ref) VarRequest \<and> \<not> comparedToLiteral ref
      then Inl (NotComparedToLiteral (iss_name iss)) else Inr ())"

definition checkCondition :: "expr \<Rightarrow> OIDCIssuer \<Rightarrow> condition_error + unit" where
  "checkCondition ast iss =
     (let root = (ast, []) :: nav in
      bind_r (each_r check_shadowing (descendants ast)) (\<lambda>_.
      bind_r (each_r check_function (descendants ast)) (\<lambda>_.
      bind_r (each_r (check_caller_read iss) (nav_descendants root)) (\<lambda>_.
      bind_r (if \<not> IsPreset iss then each_r (check_request_read iss) (nav_descendants root) else Inr ())
        (\<lambda>_.
      if \<not> constrains_by boundsResource ast then Inl ResourceUnconstrained
      else if gm_len (iss_require iss) = 0 \<and> \<not> constrains_by (boundsCaller (identityClaims iss)) ast
      then Inl (CallerUnconstrained (identityClaims iss) (iss_name iss))
      else Inr ())))))"

section \<open>What an accepted condition looks like\<close>

lemma references_iff: "references e name \<longleftrightarrow> (\<exists>d\<in>set (descendants e). isIdent d name)"
  by (auto simp: references_def filter_empty_conv)

lemma references_child: "c \<in> set (children e) \<Longrightarrow> references c name \<Longrightarrow> references e name"
  by (auto simp: references_iff intro: descendants_trans child_in_descendants)

lemma references_Ident: "references (Ident i s) name \<longleftrightarrow> isIdent (Ident i s) name"
  by (simp add: references_iff descendants.simps)

lemma isIdent_Ident [simp]: "isIdent (Ident i s) name \<longleftrightarrow> trim_prefix s ''.'' = name"
  by (simp add: isIdent_def)

lemma isIdentD: "isIdent e name \<Longrightarrow> \<exists>i s. e = Ident i s \<and> trim_prefix s ''.'' = name"
  by (auto simp: isIdent_def split: expr.splits)

lemma checkCondition_Inr_iff [result_iff]:
  "checkCondition ast iss = Inr u \<longleftrightarrow>
    (\<forall>d\<in>set (descendants ast). check_shadowing d = Inr ()) \<and>
    (\<forall>d\<in>set (descendants ast). check_function d = Inr ()) \<and>
    (\<forall>n\<in>set (nav_descendants (ast, [])). check_caller_read iss n = Inr ()) \<and>
    (\<not> IsPreset iss \<longrightarrow> (\<forall>n\<in>set (nav_descendants (ast, [])). check_request_read iss n = Inr ())) \<and>
    constrains_by boundsResource ast \<and>
    (gm_len (iss_require iss) = 0 \<longrightarrow> constrains_by (boundsCaller (identityClaims iss)) ast)"
  by (auto simp: checkCondition_def Let_def result_iff)

lemma checkCondition_resource: "checkCondition ast iss = Inr u \<Longrightarrow> constrains_by boundsResource ast"
  by (simp add: checkCondition_Inr_iff)

lemma checkCondition_caller:
  "checkCondition ast iss = Inr u \<Longrightarrow> gm_lookup (iss_require iss) = Map.empty \<Longrightarrow>
    constrains_by (boundsCaller (identityClaims iss)) ast"
  by (simp add: checkCondition_Inr_iff gm_len_0_iff)

text \<open>Every claim a condition reads is declared by the issuer.\<close>

lemma checkCondition_claims:
  assumes chk: "checkCondition ast iss = Inr u"
    and d: "d \<in> set (descendants ast)" and c: "callerClaim d = Some c"
  shows "c \<in> set (iss_claims iss)"
proof -
  obtain r where r: "r \<in> set (children d)" "isIdent r VarCaller"
  proof (cases d)
    case (Select i operand f test)
    with c that show thesis by (auto simp: callerClaim_def split: if_splits)
  next
    case (Call i fn t args)
    with c have "length args = 2" "isIdent (args ! 0) VarCaller"
      by (auto simp: callerClaim_def split: if_splits)
    with Call that [of "args ! 0"] show thesis by (auto simp: nth_mem)
  qed (use c in \<open>auto simp: callerClaim_def\<close>)
  obtain ps where "(d, ps) \<in> set (nav_descendants (ast, []))"
    using nav_descendants_ex [of d "(ast, [])"] d by auto
  then have "(r, d # ps) \<in> set (nav_descendants (ast, []))"
    using r(1) by (rule nav_descendants_child)
  then have "check_caller_read iss (r, d # ps) = Inr ()"
    using chk by (auto simp: checkCondition_Inr_iff)
  then show ?thesis
    using r(2) c by (auto simp: check_caller_read_def nav_parent_def split: if_splits)
qed

lemma nonpreset_literal:
  assumes chk: "checkCondition ast iss = Inr u" and np: "\<not> IsPreset iss"
    and cmp: "(cmp, ps) \<in> set (nav_descendants (ast, []))" and sel: "sel \<in> set (children cmp)"
    and ref: "isResourceRef sel"
  shows "\<exists>r. comparedToLiteral (r, sel # cmp # ps)"
proof -
  obtain r where r: "r \<in> set (children sel)" "isIdent r VarRequest"
    using ref by (cases sel) (auto simp: isResourceRef_def isRequestField_def)
  have "(r, sel # cmp # ps) \<in> set (nav_descendants (ast, []))"
    using nav_descendants_child [OF nav_descendants_child [OF cmp sel] r(1)] .
  then have "check_request_read iss (r, sel # cmp # ps) = Inr ()"
    using chk np by (auto simp: checkCondition_Inr_iff)
  then show ?thesis using r(2) by (auto simp: check_request_read_def split: if_splits)
qed

section \<open>Conditions for the witnesses\<close>

text \<open>\<open>request.resource == "repo:" + caller.repository\<close> and
  \<open>request.resource in ["repo:o/a", "repo:o/b"]\<close>.\<close>

definition resource_read :: "int \<Rightarrow> expr" where
  "resource_read i = Select i (Ident (i + 1) ''request'') ''resource'' False"

definition own_condition :: expr where
  "own_condition = Call 1 Equals None [resource_read 2,
     Call 4 Add None [Literal 5 (VString ''repo:''), Select 6 (Ident 7 ''caller'') ''repository'' False]]"

definition ci_condition :: expr where
  "ci_condition = Call 1 In None [resource_read 2,
     ListLit 4 [Literal 5 (VString ''repo:o/a''), Literal 6 (VString ''repo:o/b'')]]"

lemma own_condition_accepted: "checkCondition own_condition (default_issuer sample_issuer) = Inr ()"
  by code_simp

lemma ci_condition_accepted: "checkCondition ci_condition (default_issuer sample_plain_issuer) = Inr ()"
  by code_simp

end
