(* ===== verification/Policy_Engine.thy ===== *)
theory Policy_Engine
  imports Policy_Check
begin

text \<open>
  The engine of \<open>internal/policy/engine.go\<close>: \<open>New\<close> compiles the configured policies,
  \<open>Evaluate\<close> decides a request, once per distinct resource, by merging the static grants of the
  policies that match. Parameters are the CEL library (\<open>cel_lib\<close>: the environment,
  \<open>Env.Compile\<close> and \<open>Env.Program\<close>) and the evaluation \<open>Program.Eval\<close> of a compiled condition on
  a caller and a request. Log lines are returned as lists.
\<close>

section \<open>Data\<close>

record Request =
  req_resource :: string
  req_resources :: "string list"

record Input =
  in_issuer :: string
  in_caller :: "string gomap"
  in_request :: Request

record Decision =
  d_allowed :: bool
  d_matched :: "string list"
  d_skipped :: "string list"
  d_grants :: "perms gomap"
  d_uncovered :: "string list"

record 'p compiledPolicy =
  cp_name :: string
  cp_condition :: 'p
  cp_grant :: perms

record 'p Engine =
  en_policies :: "'p compiledPolicy list gomap"
  en_max_repositories :: int

datatype out_kind = DynKind | BoolKind | OtherKind string

record checked =
  ck_ast :: expr
  ck_kind :: out_kind

text \<open>The declarations of the CEL environment: two variables, and a Go struct whose fields are named by
  their tags.\<close>

datatype cel_type = StringType | ListType cel_type | MapType cel_type cel_type | ObjectType string

datatype cel_option =
    Variable string cel_type
  | NativeStruct string "(string \<times> cel_type) list"

record 'p cel_lib =
  cel_env :: "cel_option list \<Rightarrow> string + unit"
  cel_compile :: "string \<Rightarrow> string + checked"
  cel_program :: "checked \<Rightarrow> nat \<Rightarrow> string + 'p"

datatype policy_error =
    EnvFailed string
  | NoSuchIssuer string string
  | CompileFailed string string
  | NotBool string out_kind
  | Rejected string condition_error
  | ProgramFailed string string

type_synonym 'p cel_eval = "'p \<Rightarrow> string gomap \<Rightarrow> Request \<Rightarrow> string + cel_val"

section \<open>Building the engine\<close>

definition NewEnv :: "'p cel_lib \<Rightarrow> string + unit" where
  "NewEnv lib = cel_env lib
     [Variable VarCaller (MapType StringType StringType),
      Variable VarRequest (ObjectType ''policy.Request''),
      NativeStruct ''policy.Request'' [(''resource'', StringType), (''resources'', ListType StringType)]]"

definition compile ::
  "'p cel_lib \<Rightarrow> OIDCIssuer \<Rightarrow> string \<Rightarrow> string \<Rightarrow> nat \<Rightarrow> policy_error + 'p \<times> condition_warning list" where
  "compile lib iss policy text costLimit =
     bind_r (map_err (CompileFailed policy) (cel_compile lib text)) (\<lambda>ast.
     if ck_kind ast \<noteq> DynKind \<and> ck_kind ast \<noteq> BoolKind then Inl (NotBool policy (ck_kind ast))
     else
       bind_r (map_err (Rejected policy) (checkCondition (ck_ast ast) iss)) (\<lambda>_.
       bind_r (map_err (ProgramFailed policy) (cel_program lib ast costLimit)) (\<lambda>prg.
       Inr (prg, conditionWarnings (ck_ast ast)))))"

type_synonym warning_log = "(string \<times> condition_warning) list"

fun add_policies ::
  "'p cel_lib \<Rightarrow> OIDCIssuer gomap \<Rightarrow> nat \<Rightarrow> 'p Engine \<Rightarrow> warning_log \<Rightarrow> Policy list \<Rightarrow>
   (policy_error + 'p Engine) \<times> warning_log" where
  "add_policies lib issuers costLimit e log [] = (Inr e, log)"
| "add_policies lib issuers costLimit e log (p # ps) =
     (case gm_lookup issuers (policy_issuer p) of
        None \<Rightarrow> (Inl (NoSuchIssuer (policy_name p) (policy_issuer p)), log)
      | Some iss \<Rightarrow>
          (case compile lib iss (policy_name p) (policy_condition p) costLimit of
             Inl err \<Rightarrow> (Inl err, log)
           | Inr (prg, warnings) \<Rightarrow>
               (let cp = \<lparr>cp_name = policy_name p, cp_condition = prg, cp_grant = policy_grant p\<rparr>;
                    old = (case gm_lookup (en_policies e) (policy_issuer p) of None \<Rightarrow> [] | Some cps \<Rightarrow> cps)
                in add_policies lib issuers costLimit
                     (e\<lparr>en_policies := gm_put (policy_issuer p) (old @ [cp]) (en_policies e)\<rparr>)
                     (log @ map (\<lambda>w. (policy_name p, w)) warnings) ps)))"

definition New :: "'p cel_lib \<Rightarrow> Config \<Rightarrow> (policy_error + 'p Engine) \<times> warning_log" where
  "New lib cfg =
     (case NewEnv lib of
        Inl err \<Rightarrow> (Inl (EnvFailed err), [])
      | Inr _ \<Rightarrow>
          add_policies lib (gm_of (map (\<lambda>iss. (iss_name iss, iss)) (oidc_issuers (cfg_oidc cfg))))
            (pol_cost_limit (cfg_policy cfg))
            \<lparr>en_policies = gm_empty, en_max_repositories = pol_max_repositories (cfg_policy cfg)\<rparr>
            [] (cfg_policies cfg))"

section \<open>Evaluating a request\<close>

definition mergePermissions :: "perms \<Rightarrow> perms \<Rightarrow> perms" where
  "mergePermissions destination source =
     gm_merge (\<lambda>key level existing.
       case existing of
         None \<Rightarrow> Some level
       | Some old \<Rightarrow> if Satisfies (gm_of [(key, old)]) (gm_of [(key, level)]) then Some level else None)
       (Normalize source) destination"

definition coversPermissions :: "perms \<Rightarrow> perms \<Rightarrow> bool" where
  "coversPermissions required granted =
     (if gm_len (Normalize required) \<noteq> gm_len required then False
      else Satisfies required granted)"

definition checkListCaps :: "'p Engine \<Rightarrow> Request \<Rightarrow> (nat \<times> int) + unit" where
  "checkListCaps e req =
     (if int (length (req_resources req)) > en_max_repositories e
      then Inl (length (req_resources req), en_max_repositories e) else Inr ())"

definition evalBool :: "'p cel_eval \<Rightarrow> 'p \<Rightarrow> string gomap \<Rightarrow> Request \<Rightarrow> string + bool" where
  "evalBool eval prg caller req =
     (case eval prg caller req of
        Inl err \<Rightarrow> Inl err
      | Inr (VBool b) \<Rightarrow> Inr b
      | Inr _ \<Rightarrow> Inl ''expression returned a value that is not a bool'')"

record eval_state =
  es_grants :: "perms gomap"
  es_matched :: "bool gomap"
  es_skipped :: "bool gomap"
  es_uncovered :: "string list"
  es_log :: "(string \<times> string \<times> string) list"

text \<open>The body of the inner loop; its variables are \<open>grant\<close>, \<open>covered\<close> and the shared state.\<close>

definition eval_policy ::
  "'p cel_eval \<Rightarrow> string gomap \<Rightarrow> string \<Rightarrow> 'p compiledPolicy \<Rightarrow>
   perms \<times> bool \<times> eval_state \<Rightarrow> perms \<times> bool \<times> eval_state" where
  "eval_policy eval caller r p = (\<lambda>(grant, covered, st).
     case evalBool eval (cp_condition p) caller \<lparr>req_resource = r, req_resources = [r]\<rparr> of
       Inl err \<Rightarrow> (grant, covered,
         st\<lparr>es_skipped := gm_put (cp_name p) True (es_skipped st),
            es_log := es_log st @ [(cp_name p, r, err)]\<rparr>)
     | Inr ok \<Rightarrow>
         if ok then (mergePermissions grant (cp_grant p), True,
           st\<lparr>es_matched := gm_put (cp_name p) True (es_matched st)\<rparr>)
         else (grant, covered, st))"

definition policies_of :: "'p Engine \<Rightarrow> string \<Rightarrow> 'p compiledPolicy list" where
  "policies_of e issuer = (case gm_lookup (en_policies e) issuer of None \<Rightarrow> [] | Some ps \<Rightarrow> ps)"

definition eval_resource ::
  "'p cel_eval \<Rightarrow> 'p compiledPolicy list \<Rightarrow> string gomap \<Rightarrow> perms \<Rightarrow> string \<Rightarrow> eval_state \<Rightarrow> eval_state" where
  "eval_resource eval policies caller required r st =
     (if gm_lookup (es_grants st) r \<noteq> None then st
      else
        (case fold (eval_policy eval caller r) policies (gm_empty, False, st) of
           (grant, covered, st') \<Rightarrow>
             (let st'' = st'\<lparr>es_grants := gm_put r grant (es_grants st')\<rparr>
              in if \<not> covered \<or> \<not> coversPermissions required grant
                 then st''\<lparr>es_uncovered := es_uncovered st'' @ [r]\<rparr> else st'')))"

definition Evaluate ::
  "'p cel_eval \<Rightarrow> 'p Engine \<Rightarrow> Input \<Rightarrow> perms \<Rightarrow>
   ((nat \<times> int) + Decision) \<times> (string \<times> string \<times> string) list" where
  "Evaluate eval e inp required =
     (case checkListCaps e (in_request inp) of
        Inl err \<Rightarrow> (Inl err, [])
      | Inr _ \<Rightarrow>
          (let st = fold (eval_resource eval (policies_of e (in_issuer inp)) (in_caller inp) required)
                 (req_resources (in_request inp))
                 \<lparr>es_grants = gm_empty, es_matched = gm_empty, es_skipped = gm_empty,
                  es_uncovered = [], es_log = []\<rparr>
           in (Inr \<lparr>d_allowed = (gm_len (es_grants st) > 0 \<and> length (es_uncovered st) = 0),
                    d_matched = sort (gm_keys (es_matched st)),
                    d_skipped = sort (gm_keys (es_skipped st)),
                    d_grants = es_grants st,
                    d_uncovered = sort (es_uncovered st)\<rparr>, es_log st)))"

section \<open>Merging is a join\<close>

lemma level_at_singleton:
  "level_at (gm_of [(k, v)]) k' = (if k' = k \<and> ValidKey k then LevelOrd v else 0)"
  by (auto simp: level_at_def lookup_Normalize gm_lookup_of LevelOrd_0_iff)

lemma Satisfies_singleton:
  "ValidKey k \<Longrightarrow> Satisfies (gm_of [(k, a)]) (gm_of [(k, b)]) \<longleftrightarrow> LevelOrd a \<le> LevelOrd b"
  by (auto simp: Satisfies_iff_level level_at_singleton)

lemma lookup_mergePermissions:
  "gm_lookup (mergePermissions d s) k =
    (case gm_lookup (Normalize s) k of
       None \<Rightarrow> gm_lookup d k
     | Some v \<Rightarrow> (case gm_lookup d k of
         None \<Rightarrow> Some v | Some old \<Rightarrow> if LevelOrd old \<le> LevelOrd v then Some v else Some old))"
  by (cases "gm_lookup s k")
    (auto simp: mergePermissions_def gm_lookup_merge lookup_Normalize Satisfies_singleton
      split: option.splits)

lemma mergePermissions_eq_aggregate: "gm_lookup (mergePermissions d s) = gm_lookup (aggregate d s)"
proof
  fix k
  show "gm_lookup (mergePermissions d s) k = gm_lookup (aggregate d s) k"
    by (cases "gm_lookup s k"; cases "gm_lookup d k")
      (auto simp: lookup_mergePermissions aggregate_def gm_lookup_merge lookup_Normalize
        intro: LevelOrd_inj)
qed

lemma level_at_lookup_cong: "gm_lookup m = gm_lookup n \<Longrightarrow> level_at m = level_at n"
  by (simp add: level_at_def fun_eq_iff lookup_Normalize)

lemma level_at_merge: "level_at (mergePermissions d s) k = max (level_at d k) (level_at s k)"
  using level_at_lookup_cong [OF mergePermissions_eq_aggregate] by (simp add: level_at_aggregate)

interpretation mp: grant_join Satisfies mergePermissions gm_empty
  by unfold_locales
    (auto simp: Satisfies_iff_level level_at_merge lookup_Normalize level_at_def [of gm_empty]
      intro: le_trans)

lemma level_at_foldl_merge:
  "level_at (foldl mergePermissions d gs) k = fold max (map (\<lambda>g. level_at g k) gs) (level_at d k)"
  by (induction gs arbitrary: d) (simp_all add: level_at_merge max.commute)

lemma fold_max_attained:
  "fold max xs (m :: nat) = m \<or> fold max xs m \<in> set xs"
proof (induction xs arbitrary: m)
  case Nil
  then show ?case by simp
next
  case (Cons a xs)
  from Cons.IH [of "max a m"] show ?case by (auto simp: max_def split: if_splits)
qed

text \<open>A level of a combined grant is the level one of the grants gives.\<close>

lemma merge_single_source:
  assumes "0 < level_at (foldl mergePermissions gm_empty gs) k"
  shows "\<exists>g\<in>set gs. level_at g k = level_at (foldl mergePermissions gm_empty gs) k"
  using assms fold_max_attained [of "map (\<lambda>g. level_at g k) gs" "level_at gm_empty k"]
  by (auto simp: level_at_foldl_merge level_at_def [of gm_empty] lookup_Normalize)

definition canonical :: "perms \<Rightarrow> bool" where
  "canonical m \<longleftrightarrow> (\<forall>k v. gm_lookup m k = Some v \<longrightarrow> ValidKey k \<and> ValidLevel v)"

lemma gm_len_Normalize: "gm_len (Normalize m) = gm_len m \<longleftrightarrow> canonical m"
proof -
  have sub: "dom (gm_lookup (Normalize m)) \<subseteq> dom (gm_lookup m)"
    by (auto simp: Normalize_Some_iff)
  have "gm_len (Normalize m) = gm_len m \<longleftrightarrow> dom (gm_lookup (Normalize m)) = dom (gm_lookup m)"
    unfolding gm_len_card using sub by (metis card_subset_eq gm_finite_dom)
  also have "\<dots> \<longleftrightarrow> canonical m"
    by (auto simp: canonical_def dom_def set_eq_iff lookup_Normalize split: option.splits if_splits)
  finally show ?thesis .
qed

lemma coversPermissions_iff: "coversPermissions required granted \<longleftrightarrow> canonical required \<and> Satisfies required granted"
  by (simp add: coversPermissions_def gm_len_Normalize)

section \<open>The decision in closed form\<close>

definition matches_policy :: "'p cel_eval \<Rightarrow> string gomap \<Rightarrow> string \<Rightarrow> 'p compiledPolicy \<Rightarrow> bool" where
  "matches_policy eval caller r p \<longleftrightarrow>
     evalBool eval (cp_condition p) caller \<lparr>req_resource = r, req_resources = [r]\<rparr> = Inr True"

definition fails_policy :: "'p cel_eval \<Rightarrow> string gomap \<Rightarrow> string \<Rightarrow> 'p compiledPolicy \<Rightarrow> bool" where
  "fails_policy eval caller r p \<longleftrightarrow>
     (case evalBool eval (cp_condition p) caller \<lparr>req_resource = r, req_resources = [r]\<rparr> of
        Inl _ \<Rightarrow> True | Inr _ \<Rightarrow> False)"

definition grant_for :: "'p cel_eval \<Rightarrow> string gomap \<Rightarrow> 'p compiledPolicy list \<Rightarrow> string \<Rightarrow> perms" where
  "grant_for eval caller policies r =
     foldl mergePermissions gm_empty (map cp_grant (filter (matches_policy eval caller r) policies))"

definition resource_covered ::
  "'p cel_eval \<Rightarrow> string gomap \<Rightarrow> 'p compiledPolicy list \<Rightarrow> perms \<Rightarrow> string \<Rightarrow> bool" where
  "resource_covered eval caller policies required r \<longleftrightarrow>
     (\<exists>p\<in>set policies. matches_policy eval caller r p) \<and>
     coversPermissions required (grant_for eval caller policies r)"

lemma eval_policy_step:
  assumes "eval_policy eval caller r p (g, c, st) = (g', c', st')"
  shows "g' = (if matches_policy eval caller r p then mergePermissions g (cp_grant p) else g)"
    and "c' \<longleftrightarrow> c \<or> matches_policy eval caller r p"
    and "es_grants st' = es_grants st" and "es_uncovered st' = es_uncovered st"
    and "dom (gm_lookup (es_matched st')) = dom (gm_lookup (es_matched st)) \<union>
      (if matches_policy eval caller r p then {cp_name p} else {})"
    and "dom (gm_lookup (es_skipped st')) = dom (gm_lookup (es_skipped st)) \<union>
      (if fails_policy eval caller r p then {cp_name p} else {})"
  using assms
  by (auto simp: eval_policy_def matches_policy_def fails_policy_def dom_def
      split: sum.splits if_splits)

lemma fold_eval_policy:
  assumes "fold (eval_policy eval caller r) ps (g, c, st) = (g', c', st')"
  shows "g' = foldl mergePermissions g (map cp_grant (filter (matches_policy eval caller r) ps))
    \<and> (c' \<longleftrightarrow> c \<or> (\<exists>p\<in>set ps. matches_policy eval caller r p))
    \<and> es_grants st' = es_grants st \<and> es_uncovered st' = es_uncovered st
    \<and> dom (gm_lookup (es_matched st')) =
      dom (gm_lookup (es_matched st)) \<union> cp_name ` {p \<in> set ps. matches_policy eval caller r p}
    \<and> dom (gm_lookup (es_skipped st')) =
      dom (gm_lookup (es_skipped st)) \<union> cp_name ` {p \<in> set ps. fails_policy eval caller r p}"
  using assms
proof (induction ps arbitrary: g c st)
  case Nil
  then show ?case by simp
next
  case (Cons p ps)
  obtain g1 c1 st1 where s1: "eval_policy eval caller r p (g, c, st) = (g1, c1, st1)"
    by (metis prod_cases3)
  with Cons.prems have "fold (eval_policy eval caller r) ps (g1, c1, st1) = (g', c', st')" by simp
  from Cons.IH [OF this] eval_policy_step [OF s1] show ?case by auto
qed

lemma eval_resource_seen: "r \<in> dom (gm_lookup (es_grants st)) \<Longrightarrow> eval_resource eval ps caller required r st = st"
  by (auto simp: eval_resource_def)

lemma eval_resource_new:
  assumes "r \<notin> dom (gm_lookup (es_grants st))"
  shows "es_grants (eval_resource eval ps caller required r st) =
      gm_put r (grant_for eval caller ps r) (es_grants st)"
    and "es_uncovered (eval_resource eval ps caller required r st) =
      es_uncovered st @ (if resource_covered eval caller ps required r then [] else [r])"
    and "dom (gm_lookup (es_matched (eval_resource eval ps caller required r st))) =
      dom (gm_lookup (es_matched st)) \<union> cp_name ` {p \<in> set ps. matches_policy eval caller r p}"
    and "dom (gm_lookup (es_skipped (eval_resource eval ps caller required r st))) =
      dom (gm_lookup (es_skipped st)) \<union> cp_name ` {p \<in> set ps. fails_policy eval caller r p}"
proof -
  obtain g c st' where f: "fold (eval_policy eval caller r) ps (gm_empty, False, st) = (g, c, st')"
    by (metis prod_cases3)
  note F = fold_eval_policy [OF f]
  have g: "g = grant_for eval caller ps r" and c: "c \<longleftrightarrow> (\<exists>p\<in>set ps. matches_policy eval caller r p)"
    using F by (auto simp: grant_for_def)
  have un: "resource_covered eval caller ps required r \<longleftrightarrow> c \<and> coversPermissions required g"
    by (simp add: resource_covered_def g c)
  have e: "eval_resource eval ps caller required r st =
    (if resource_covered eval caller ps required r then st'\<lparr>es_grants := gm_put r g (es_grants st')\<rparr>
     else st'\<lparr>es_grants := gm_put r g (es_grants st'), es_uncovered := es_uncovered st' @ [r]\<rparr>)"
    using assms f unfolding un by (simp add: eval_resource_def Let_def domIff)
  show "es_grants (eval_resource eval ps caller required r st) =
      gm_put r (grant_for eval caller ps r) (es_grants st)"
    using F by (simp add: e g)
  show "es_uncovered (eval_resource eval ps caller required r st) =
      es_uncovered st @ (if resource_covered eval caller ps required r then [] else [r])"
    using F by (simp add: e)
  show "dom (gm_lookup (es_matched (eval_resource eval ps caller required r st))) =
      dom (gm_lookup (es_matched st)) \<union> cp_name ` {p \<in> set ps. matches_policy eval caller r p}"
    using F by (simp add: e)
  show "dom (gm_lookup (es_skipped (eval_resource eval ps caller required r st))) =
      dom (gm_lookup (es_skipped st)) \<union> cp_name ` {p \<in> set ps. fails_policy eval caller r p}"
    using F by (simp add: e)
qed

text \<open>What the outer loop has accumulated after a list of resources.\<close>

lemma fold_eval_resource:
  fixes st and rs and eval :: "'p cel_eval" and ps caller required
  defines "st' \<equiv> fold (eval_resource eval ps caller required) rs st"
    and "D \<equiv> dom (gm_lookup (es_grants st))"
  assumes "distinct (es_uncovered st)" and "set (es_uncovered st) \<subseteq> D"
  shows "(\<forall>r. gm_lookup (es_grants st') r = (if r \<in> D then gm_lookup (es_grants st) r
        else if r \<in> set rs then Some (grant_for eval caller ps r) else None))
    \<and> distinct (es_uncovered st')
    \<and> set (es_uncovered st') = set (es_uncovered st) \<union>
        {r \<in> set rs - D. \<not> resource_covered eval caller ps required r}
    \<and> dom (gm_lookup (es_matched st')) = dom (gm_lookup (es_matched st)) \<union>
        cp_name ` {p \<in> set ps. \<exists>r\<in>set rs - D. matches_policy eval caller r p}
    \<and> dom (gm_lookup (es_skipped st')) = dom (gm_lookup (es_skipped st)) \<union>
        cp_name ` {p \<in> set ps. \<exists>r\<in>set rs - D. fails_policy eval caller r p}"
  using assms(3,4) unfolding st'_def D_def
proof (induction rs arbitrary: st)
  case Nil
  then show ?case by (auto simp: domIff)
next
  case (Cons r rs)
  show ?case
  proof (cases "r \<in> dom (gm_lookup (es_grants st))")
    case True
    with Cons.IH [OF Cons.prems] show ?thesis by (auto simp: eval_resource_seen)
  next
    case False
    let ?st = "eval_resource eval ps caller required r st"
    note N = eval_resource_new [OF False, of eval ps caller required]
    have dom: "dom (gm_lookup (es_grants ?st)) = insert r (dom (gm_lookup (es_grants st)))"
      by (auto simp: N dom_def)
    have pre: "distinct (es_uncovered ?st)" "set (es_uncovered ?st) \<subseteq> dom (gm_lookup (es_grants ?st))"
      using Cons.prems False unfolding dom by (auto simp: N)
    note I = Cons.IH [OF pre, unfolded dom N(2-4)]
    have g: "\<forall>x. gm_lookup (es_grants (fold (eval_resource eval ps caller required) (r # rs) st)) x =
        (if x \<in> dom (gm_lookup (es_grants st)) then gm_lookup (es_grants st) x
         else if x \<in> set (r # rs) then Some (grant_for eval caller ps x) else None)"
      using I False by (auto simp: N(1))
    let ?D = "dom (gm_lookup (es_grants st))"
    have names: "A \<union> cp_name ` {p \<in> set ps. Q r p} \<union> cp_name ` {p \<in> set ps. \<exists>x\<in>set rs - insert r ?D. Q x p}
      = A \<union> cp_name ` {p \<in> set ps. \<exists>x\<in>set (r # rs) - ?D. Q x p}" for Q A
    proof -
      have "{p \<in> set ps. \<exists>x\<in>set (r # rs) - ?D. Q x p}
        = {p \<in> set ps. Q r p} \<union> {p \<in> set ps. \<exists>x\<in>set rs - insert r ?D. Q x p}"
        using False by auto
      then show ?thesis by (simp only: image_Un Un_assoc)
    qed
    have un: "set (es_uncovered st) \<union> set (if resource_covered eval caller ps required r then [] else [r])
        \<union> {x \<in> set rs - insert r ?D. \<not> resource_covered eval caller ps required x}
      = set (es_uncovered st) \<union> {x \<in> set (r # rs) - ?D. \<not> resource_covered eval caller ps required x}"
      using False by auto
    show ?thesis
      using g I unfolding names set_append un by simp
  qed
qed

lemma sort_distinct_set: "distinct xs \<Longrightarrow> sort xs = sorted_list_of_set (set xs)"
  by (simp add: sorted_list_of_set_sort_remdups distinct_remdups_id)

text \<open>\<open>Evaluate\<close> as a table: the error, or the five fields of the decision.\<close>

lemma Evaluate_cap:
  "fst (Evaluate eval e inp required) = Inl x \<longleftrightarrow>
    x = (length (req_resources (in_request inp)), en_max_repositories e) \<and>
    en_max_repositories e < int (length (req_resources (in_request inp)))"
  by (auto simp: Evaluate_def checkListCaps_def Let_def)

lemma Evaluate_fields:
  fixes inp :: Input and e :: "'p Engine"
  defines "rs \<equiv> req_resources (in_request inp)"
    and "ps \<equiv> policies_of e (in_issuer inp)"
  assumes ev: "fst (Evaluate eval e inp required) = Inr d"
  shows "d_allowed d \<longleftrightarrow> rs \<noteq> [] \<and> (\<forall>r\<in>set rs. resource_covered eval (in_caller inp) ps required r)"
    and "d_matched d =
      sorted_list_of_set (cp_name ` {p \<in> set ps. \<exists>r\<in>set rs. matches_policy eval (in_caller inp) r p})"
    and "d_skipped d =
      sorted_list_of_set (cp_name ` {p \<in> set ps. \<exists>r\<in>set rs. fails_policy eval (in_caller inp) r p})"
    and "gm_lookup (d_grants d) r =
      (if r \<in> set rs then Some (grant_for eval (in_caller inp) ps r) else None)"
    and "d_uncovered d =
      sorted_list_of_set {r \<in> set rs. \<not> resource_covered eval (in_caller inp) ps required r}"
    and "int (length rs) \<le> en_max_repositories e"
proof -
  define st0 where "st0 = \<lparr>es_grants = gm_empty, es_matched = gm_empty, es_skipped = gm_empty,
                  es_uncovered = [], es_log = []\<rparr>"
  define st where "st = fold (eval_resource eval ps (in_caller inp) required) rs st0"
  have d: "int (length rs) \<le> en_max_repositories e \<and>
    d = \<lparr>d_allowed = (gm_len (es_grants st) > 0 \<and> length (es_uncovered st) = 0),
         d_matched = sort (gm_keys (es_matched st)), d_skipped = sort (gm_keys (es_skipped st)),
         d_grants = es_grants st, d_uncovered = sort (es_uncovered st)\<rparr>"
    using ev by (auto simp: Evaluate_def checkListCaps_def Let_def st_def st0_def rs_def ps_def
        split: if_splits)
  have "distinct (es_uncovered st0)" "set (es_uncovered st0) \<subseteq> dom (gm_lookup (es_grants st0))"
    by (simp_all add: st0_def)
  note F = fold_eval_resource [OF this, of eval ps "in_caller inp" required rs, folded st_def]
  have F1: "gm_lookup (es_grants st) r = (if r \<in> set rs then Some (grant_for eval (in_caller inp) ps r) else None)"
    for r using F by (simp add: st0_def)
  have F3: "set (es_uncovered st) = {r \<in> set rs. \<not> resource_covered eval (in_caller inp) ps required r}"
    using F by (simp add: st0_def)
  have len: "gm_len (es_grants st) > 0 \<longleftrightarrow> rs \<noteq> []"
    by (cases rs) (auto simp: gm_len_0_iff F1 fun_eq_iff simp flip: neq0_conv)
  show "d_allowed d \<longleftrightarrow> rs \<noteq> [] \<and> (\<forall>r\<in>set rs. resource_covered eval (in_caller inp) ps required r)"
    using d len F3 by (auto simp flip: set_empty)
  show "gm_lookup (d_grants d) r =
      (if r \<in> set rs then Some (grant_for eval (in_caller inp) ps r) else None)"
    using d F1 by simp
  show "d_uncovered d = sorted_list_of_set {r \<in> set rs. \<not> resource_covered eval (in_caller inp) ps required r}"
    using d F F3 by (simp add: sort_distinct_set)
  show "d_matched d =
      sorted_list_of_set (cp_name ` {p \<in> set ps. \<exists>r\<in>set rs. matches_policy eval (in_caller inp) r p})"
    using d F by (simp add: sort_distinct_set gm_keys_dom st0_def)
  show "d_skipped d =
      sorted_list_of_set (cp_name ` {p \<in> set ps. \<exists>r\<in>set rs. fails_policy eval (in_caller inp) r p})"
    using d F by (simp add: sort_distinct_set gm_keys_dom st0_def)
  show "int (length rs) \<le> en_max_repositories e" using d by simp
qed

section \<open>What New builds\<close>

definition compiled_as ::
  "'p cel_lib \<Rightarrow> OIDCIssuer gomap \<Rightarrow> nat \<Rightarrow> Policy \<Rightarrow> 'p compiledPolicy \<Rightarrow> bool" where
  "compiled_as lib issuers costLimit p cp \<longleftrightarrow>
     (\<exists>iss w. gm_lookup issuers (policy_issuer p) = Some iss \<and>
        compile lib iss (policy_name p) (policy_condition p) costLimit = Inr (cp_condition cp, w) \<and>
        cp_name cp = policy_name p \<and> cp_grant cp = policy_grant p)"

lemma compile_Inr_iff [result_iff]:
  "compile lib iss n t costLimit = Inr (prg, w) \<longleftrightarrow>
    (\<exists>ck. cel_compile lib t = Inr ck \<and> ck_kind ck \<in> {DynKind, BoolKind} \<and>
       checkCondition (ck_ast ck) iss = Inr () \<and> cel_program lib ck costLimit = Inr prg \<and>
       w = conditionWarnings (ck_ast ck))"
  unfolding compile_def by (auto simp: bind_r_Inr_iff map_err_Inr_iff)

lemma compiled_as_unique:
  "compiled_as lib issuers costLimit p cp \<Longrightarrow> compiled_as lib issuers costLimit p cp' \<Longrightarrow> cp = cp'"
  by (auto simp: compiled_as_def)

text \<open>
  A step of the loop: it stops at the first policy that does not compile, and otherwise appends
  the compiled policy to the list of its issuer.
\<close>

lemma add_policies_Inr:
  assumes "add_policies lib issuers costLimit e log ps = (Inr e', log')"
  shows "en_max_repositories e' = en_max_repositories e \<and>
    (\<exists>cps. list_all2 (compiled_as lib issuers costLimit) (filter (\<lambda>p. policy_issuer p = i) ps) cps \<and>
      policies_of e' i = policies_of e i @ cps)"
  using assms
proof (induction ps arbitrary: e log)
  case Nil
  then show ?case by simp
next
  case (Cons p ps)
  from Cons.prems obtain iss prg w where iss: "gm_lookup issuers (policy_issuer p) = Some iss"
    and c: "compile lib iss (policy_name p) (policy_condition p) costLimit = Inr (prg, w)"
    by (auto split: option.splits sum.splits)
  define cp where "cp = \<lparr>cp_name = policy_name p, cp_condition = prg, cp_grant = policy_grant p\<rparr>"
  define e1 where "e1 = e\<lparr>en_policies :=
    gm_put (policy_issuer p) (policies_of e (policy_issuer p) @ [cp]) (en_policies e)\<rparr>"
  have "add_policies lib issuers costLimit e1 (log @ map (\<lambda>w. (policy_name p, w)) w) ps = (Inr e', log')"
    using Cons.prems iss c by (simp add: e1_def cp_def policies_of_def Let_def)
  from Cons.IH [OF this] obtain cps where m: "en_max_repositories e' = en_max_repositories e1"
    and cps: "list_all2 (compiled_as lib issuers costLimit) (filter (\<lambda>p. policy_issuer p = i) ps) cps"
      "policies_of e' i = policies_of e1 i @ cps" by blast
  have "compiled_as lib issuers costLimit p cp"
    using iss c by (simp add: compiled_as_def cp_def)
  moreover have "policies_of e1 i = policies_of e i @ (if policy_issuer p = i then [cp] else [])"
    by (simp add: e1_def policies_of_def)
  ultimately show ?case
    using m cps by (cases "policy_issuer p = i") (auto simp: e1_def intro: exI [of _ "cp # cps"])
qed


lemma compiled_as_ex:
  "(\<exists>cp. compiled_as lib issuers costLimit p cp) \<longleftrightarrow>
    (\<exists>iss prg w. gm_lookup issuers (policy_issuer p) = Some iss \<and>
      compile lib iss (policy_name p) (policy_condition p) costLimit = Inr (prg, w))"
proof
  assume "\<exists>iss prg w. gm_lookup issuers (policy_issuer p) = Some iss \<and>
      compile lib iss (policy_name p) (policy_condition p) costLimit = Inr (prg, w)"
  then obtain iss prg w where "gm_lookup issuers (policy_issuer p) = Some iss"
      "compile lib iss (policy_name p) (policy_condition p) costLimit = Inr (prg, w)" by blast
  then have "compiled_as lib issuers costLimit p
      \<lparr>cp_name = policy_name p, cp_condition = prg, cp_grant = policy_grant p\<rparr>"
    by (simp add: compiled_as_def)
  then show "\<exists>cp. compiled_as lib issuers costLimit p cp" ..
qed (auto simp: compiled_as_def)

lemma add_policies_success:
  "(\<exists>e' log'. add_policies lib issuers costLimit e log ps = (Inr e', log')) \<longleftrightarrow>
    (\<forall>p\<in>set ps. \<exists>cp. compiled_as lib issuers costLimit p cp)"
proof (induction ps arbitrary: e log)
  case Nil
  then show ?case by simp
next
  case (Cons p ps)
  show ?case
  proof (cases "\<exists>cp. compiled_as lib issuers costLimit p cp")
    case True
    then obtain iss prg w where "gm_lookup issuers (policy_issuer p) = Some iss"
      "compile lib iss (policy_name p) (policy_condition p) costLimit = Inr (prg, w)"
      unfolding compiled_as_ex by blast
    with Cons.IH True show ?thesis by (simp add: Let_def)
  next
    case False
    then show ?thesis
      by (auto simp: compiled_as_ex split: option.splits sum.splits prod.splits)
  qed
qed

lemma add_policies_NoSuchIssuer:
  assumes "\<forall>p\<in>set ps. gm_lookup issuers (policy_issuer p) \<noteq> None"
  shows "fst (add_policies lib issuers costLimit e log ps) \<noteq> Inl (NoSuchIssuer n i)"
  using assms
  by (induction ps arbitrary: e log)
    (auto simp: compile_def bind_r_Inl_iff map_err_def Let_def split: option.splits sum.splits if_splits)

text \<open>The issuers by name, as \<open>New\<close> indexes them.\<close>

definition issuer_map :: "Config \<Rightarrow> OIDCIssuer gomap" where
  "issuer_map cfg = gm_of (map (\<lambda>iss. (iss_name iss, iss)) (oidc_issuers (cfg_oidc cfg)))"

lemma lookup_issuer_map:
  assumes "distinct (map iss_name (oidc_issuers (cfg_oidc cfg)))"
  shows "gm_lookup (issuer_map cfg) n = Some iss \<longleftrightarrow>
    iss \<in> set (oidc_issuers (cfg_oidc cfg)) \<and> iss_name iss = n"
proof -
  let ?kvs = "map (\<lambda>iss. (iss_name iss, iss)) (oidc_issuers (cfg_oidc cfg))"
  have d: "distinct (map fst (rev ?kvs))" using assms by (simp add: o_def flip: rev_map)
  have "gm_lookup (issuer_map cfg) n = Some iss \<longleftrightarrow> (n, iss) \<in> set ?kvs"
    unfolding issuer_map_def gm_lookup_of using map_of_eq_Some_iff [OF d] by auto
  then show ?thesis by auto
qed

lemma issuer_map_total:
  "n \<in> iss_name ` set (oidc_issuers (cfg_oidc cfg)) \<Longrightarrow> gm_lookup (issuer_map cfg) n \<noteq> None"
  by (auto simp: issuer_map_def gm_lookup_of map_of_eq_None_iff image_image)

definition accepts :: "'p cel_lib \<Rightarrow> Config \<Rightarrow> Policy \<Rightarrow> 'p compiledPolicy \<Rightarrow> bool" where
  "accepts lib cfg = compiled_as lib (issuer_map cfg) (pol_cost_limit (cfg_policy cfg))"

lemma New_Inr:
  assumes "New lib cfg = (Inr e, w)"
  shows "en_max_repositories e = pol_max_repositories (cfg_policy cfg)"
    and "list_all2 (accepts lib cfg) (filter (\<lambda>p. policy_issuer p = i) (cfg_policies cfg)) (policies_of e i)"
proof -
  from assms have "add_policies lib (issuer_map cfg) (pol_cost_limit (cfg_policy cfg))
    \<lparr>en_policies = gm_empty, en_max_repositories = pol_max_repositories (cfg_policy cfg)\<rparr>
            [] (cfg_policies cfg) = (Inr e, w)"
    by (auto simp: New_def issuer_map_def split: sum.splits)
  note A = add_policies_Inr [OF this, of i]
  show "en_max_repositories e = pol_max_repositories (cfg_policy cfg)" using A by simp
  show "list_all2 (accepts lib cfg) (filter (\<lambda>p. policy_issuer p = i) (cfg_policies cfg)) (policies_of e i)"
    using A unfolding accepts_def by (auto simp: policies_of_def [of "\<lparr>en_policies = _, en_max_repositories = _\<rparr>"])
qed

lemma New_success:
  "(\<exists>e w. New lib cfg = (Inr e, w)) \<longleftrightarrow>
    NewEnv lib = Inr () \<and> (\<forall>p\<in>set (cfg_policies cfg). \<exists>cp. accepts lib cfg p cp)"
  by (simp add: New_def issuer_map_def [symmetric] add_policies_success accepts_def split: sum.split)

lemma accepts_unique: "accepts lib cfg p cp \<Longrightarrow> accepts lib cfg p cp' \<Longrightarrow> cp = cp'"
  unfolding accepts_def by (rule compiled_as_unique)

text \<open>Each policy of an engine comes from a configured one that passed the checks of its issuer.\<close>

lemma New_policy_source:
  assumes "New lib cfg = (Inr e, w)" and "cp \<in> set (policies_of e i)"
    and "distinct (map iss_name (oidc_issuers (cfg_oidc cfg)))"
  obtains p iss ck where "p \<in> set (cfg_policies cfg)" "policy_issuer p = i" "cp_name cp = policy_name p"
    "cp_grant cp = policy_grant p" "iss \<in> set (oidc_issuers (cfg_oidc cfg))" "iss_name iss = i"
    "cel_compile lib (policy_condition p) = Inr ck" "checkCondition (ck_ast ck) iss = Inr ()"
    "cel_program lib ck (pol_cost_limit (cfg_policy cfg)) = Inr (cp_condition cp)"
proof -
  from list_all2_in_right [OF New_Inr(2) [OF assms(1), of i] assms(2)] obtain p where
    p: "p \<in> set (cfg_policies cfg)" "policy_issuer p = i" "accepts lib cfg p cp" by auto
  then show thesis
    using that [of p] by (auto simp: accepts_def compiled_as_def compile_Inr_iff lookup_issuer_map [OF assms(3)])
qed


section \<open>Properties of the engine\<close>

text \<open>
  The conditions of the witnesses: a condition is the list of resources it holds for.
\<close>

definition in_list_eval :: "string list cel_eval" where
  "in_list_eval prg caller req = Inr (VBool (req_resource req \<in> set prg))"

definition sample_engine :: "string list Engine" where
  "sample_engine =
     \<lparr>en_policies = gm_of
        [(''github'',
          [\<lparr>cp_name = ''read'', cp_condition = [''repo:o/a'', ''repo:o/b''],
             cp_grant = gm_of [(''contents'', ''read'')]\<rparr>,
           \<lparr>cp_name = ''write'', cp_condition = [''repo:o/a''],
             cp_grant = gm_of [(''contents'', ''write''), (''issues'', ''read'')]\<rparr>])],
      en_max_repositories = 2\<rparr>"

definition sample_input :: "string list \<Rightarrow> Input" where
  "sample_input rs = \<lparr>in_issuer = ''github'', in_caller = gm_empty,
     in_request = \<lparr>req_resource = '''', req_resources = rs\<rparr>\<rparr>"

text \<open>A compiler that knows the conditions of \<open>sample_config\<close>; a program is its syntax tree.\<close>

definition sample_lib :: "expr cel_lib" where
  "sample_lib = \<lparr>cel_env = (\<lambda>decls. Inr ()),
     cel_compile = (\<lambda>text.
       if text = ''own condition'' then Inr \<lparr>ck_ast = own_condition, ck_kind = BoolKind\<rparr>
       else if text = ''ci condition'' then Inr \<lparr>ck_ast = ci_condition, ck_kind = BoolKind\<rparr>
       else Inl ''syntax error''),
     cel_program = (\<lambda>ck limit. Inr (ck_ast ck))\<rparr>"

lemma sample_New: "\<exists>e w. New sample_lib sample_config = (Inr e, w)"
proof -
  have "case fst (New sample_lib sample_config) of Inl _ \<Rightarrow> False | Inr _ \<Rightarrow> True" by code_simp
  then show ?thesis by (cases "New sample_lib sample_config") (auto split: sum.splits)
qed

lemma sample_policies: "policies_of sample_engine ''github'' =
  [\<lparr>cp_name = ''read'', cp_condition = [''repo:o/a'', ''repo:o/b''],
     cp_grant = gm_of [(''contents'', ''read'')]\<rparr>,
   \<lparr>cp_name = ''write'', cp_condition = [''repo:o/a''],
     cp_grant = gm_of [(''contents'', ''write''), (''issues'', ''read'')]\<rparr>]"
  by (simp add: sample_engine_def policies_of_def gm_lookup_of)

lemma matches_in_list: "matches_policy in_list_eval caller r p \<longleftrightarrow> r \<in> set (cp_condition p)"
  by (simp add: matches_policy_def evalBool_def in_list_eval_def)

lemma sample_decision:
  "\<exists>d. fst (Evaluate in_list_eval sample_engine (sample_input [r]) required) = Inr d"
proof (cases "fst (Evaluate in_list_eval sample_engine (sample_input [r]) required)")
  case (Inl x)
  then show ?thesis unfolding Evaluate_cap by (simp add: sample_engine_def sample_input_def)
qed auto

lemma level_at_empty [simp]: "level_at gm_empty k = 0"
  by (simp add: level_at_def lookup_Normalize)

lemma level_at_of: "level_at (gm_of kvs) k =
    (case map_of (rev kvs) k of None \<Rightarrow> 0 | Some v \<Rightarrow> if ValidKey k then LevelOrd v else 0)"
  by (auto simp: level_at_def lookup_Normalize gm_lookup_of LevelOrd_0_iff split: option.splits)

lemma sample_keys [simp]: "ValidKey ''contents''" "ValidKey ''issues''"
  by (simp_all add: ValidKey_def Catalog_def)

lemma sample_levels [simp]: "LevelOrd ''read'' = 1" "LevelOrd ''write'' = 2" "ValidLevel ''read''"
  "ValidLevel ''write''"
  by (simp_all add: LevelOrd_def levels_def ValidLevel_iff)

text \<open>C3. A request is allowed exactly when it names at least one resource and each of them is matched
  by some policy of the caller's issuer and the merged grant of the policies matching that very
  resource covers the required permissions, all of whose keys and levels are canonical. The
  decision lists exactly the names of the policies that matched and of those that failed at run
  time, sorted, and exactly the resources that are not covered, sorted.\<close>

theorem Evaluate_decision:
  assumes "fst (Evaluate eval e inp required) = Inr d"
  shows "(d_allowed d \<longleftrightarrow> req_resources (in_request inp) \<noteq> [] \<and>
      (\<forall>r\<in>set (req_resources (in_request inp)).
        (\<exists>p\<in>set (policies_of e (in_issuer inp)). matches_policy eval (in_caller inp) r p) \<and>
        canonical required \<and>
        Satisfies required (grant_for eval (in_caller inp) (policies_of e (in_issuer inp)) r)))
    \<and> d_matched d = sorted_list_of_set (cp_name ` {p \<in> set (policies_of e (in_issuer inp)).
        \<exists>r\<in>set (req_resources (in_request inp)). matches_policy eval (in_caller inp) r p})
    \<and> d_skipped d = sorted_list_of_set (cp_name ` {p \<in> set (policies_of e (in_issuer inp)).
        \<exists>r\<in>set (req_resources (in_request inp)). fails_policy eval (in_caller inp) r p})
    \<and> d_uncovered d = sorted_list_of_set {r \<in> set (req_resources (in_request inp)).
        \<not> resource_covered eval (in_caller inp) (policies_of e (in_issuer inp)) required r}"
  using Evaluate_fields [OF assms] by (simp add: resource_covered_def coversPermissions_iff)

theorem Evaluate_decision_witness:
  "\<exists>d. fst (Evaluate in_list_eval sample_engine (sample_input [''repo:o/a''])
      (gm_of [(''contents'', ''write'')])) = Inr d \<and> d_allowed d \<and>
    d_matched d = [''read'', ''write''] \<and> d_skipped d = [] \<and> d_uncovered d = []"
proof -
  let ?req = "gm_of [(''contents'', ''write'')]"
  obtain d where d: "fst (Evaluate in_list_eval sample_engine (sample_input [''repo:o/a'']) ?req) = Inr d"
    using sample_decision by blast
  have lev: "level_at (grant_for in_list_eval gm_empty (policies_of sample_engine ''github'') ''repo:o/a'') ''contents'' = 2"
    by (simp add: grant_for_def sample_policies matches_in_list level_at_merge level_at_of)
  have sat: "Satisfies ?req (grant_for in_list_eval gm_empty (policies_of sample_engine ''github'') ''repo:o/a'')"
    using lev by (auto simp: Satisfies_iff_level level_at_of)
  have can: "canonical ?req" by (auto simp: canonical_def gm_lookup_of)
  have set: "{p \<in> set (policies_of sample_engine ''github''). matches_policy in_list_eval gm_empty ''repo:o/a'' p}
    = set (policies_of sample_engine ''github'')"
    by (auto simp: sample_policies matches_in_list)
  note T = Evaluate_decision [OF d]
  have "sorted_list_of_set {''read'', ''write''} = [''read'', ''write'']"
    by (simp add: sorted_list_of_set_sort_remdups [of "[''read'', ''write'']", simplified])
  with T d sat can set show ?thesis
    by (intro exI [of _ d]) (auto simp: sample_input_def resource_covered_def coversPermissions_iff
        fails_policy_def evalBool_def in_list_eval_def sample_policies)
qed


lemma allowed_iff:
  assumes "fst (Evaluate eval e inp required) = Inr d"
  shows "d_allowed d \<longleftrightarrow> req_resources (in_request inp) \<noteq> [] \<and>
    (\<forall>r\<in>set (req_resources (in_request inp)).
       resource_covered eval (in_caller inp) (policies_of e (in_issuer inp)) required r)"
  by (rule Evaluate_fields(1) [OF assms])

lemma level_at_grant_for:
  "level_at (grant_for eval caller ps r) k =
    fold max (map (\<lambda>p. level_at (cp_grant p) k) (filter (matches_policy eval caller r) ps)) 0"
  by (simp add: grant_for_def level_at_foldl_merge o_def)

lemma grant_for_mono:
  assumes "set ps \<subseteq> set qs"
  shows "Satisfies (grant_for eval caller ps r) (grant_for eval caller qs r)"
  unfolding grant_for_def by (rule mp.foldl_mono) (use assms in auto)

lemma resource_covered_mono:
  assumes "set ps \<subseteq> set qs" and "resource_covered eval caller ps required r"
  shows "resource_covered eval caller qs required r"
  using assms grant_for_mono [OF assms(1), of eval caller r]
  by (auto simp: resource_covered_def coversPermissions_iff intro: Satisfies_trans)

lemma justified:
  assumes ev: "fst (Evaluate eval e inp required) = Inr d" and allowed: "d_allowed d"
    and r: "r \<in> set (req_resources (in_request inp))"
    and k: "gm_lookup required k = Some v"
  shows "\<exists>p\<in>set (policies_of e (in_issuer inp)).
    matches_policy eval (in_caller inp) r p \<and> LevelOrd v \<le> level_at (cp_grant p) k \<and> 0 < LevelOrd v"
proof -
  let ?g = "map cp_grant (filter (matches_policy eval (in_caller inp) r) (policies_of e (in_issuer inp)))"
  have cov: "canonical required" "Satisfies required (foldl mergePermissions gm_empty ?g)"
    using allowed r by (auto simp: allowed_iff [OF ev] resource_covered_def coversPermissions_iff grant_for_def)
  then have "level_at required k = LevelOrd v" and pos: "0 < LevelOrd v"
    using k by (auto simp: level_at_def lookup_Normalize canonical_def LevelOrd_pos_iff)
  then have le: "LevelOrd v \<le> level_at (foldl mergePermissions gm_empty ?g) k"
    using cov(2) by (metis Satisfies_iff_level)
  with pos merge_single_source [of ?g k] show ?thesis by auto
qed

text \<open>C4. Every single permission of an allowed request is justified by one policy: for each requested
  resource and each required key there is a policy of the caller's issuer whose condition held for
  that resource and whose own grant reaches the required level. No permission comes from combining
  levels, from another resource or from the request.\<close>

theorem Evaluate_justified:
  assumes ev: "fst (Evaluate eval e inp required) = Inr d" and allowed: "d_allowed d"
    and r: "r \<in> set (req_resources (in_request inp))"
    and k: "gm_lookup required k = Some v"
  shows "\<exists>p\<in>set (policies_of e (in_issuer inp)).
    matches_policy eval (in_caller inp) r p \<and> LevelOrd v \<le> level_at (cp_grant p) k \<and> 0 < LevelOrd v"
  by (rule justified [OF assms])

theorem Evaluate_justified_witness:
  "\<exists>d. fst (Evaluate in_list_eval sample_engine (sample_input [''repo:o/a''])
      (gm_of [(''issues'', ''read'')])) = Inr d \<and>
    (\<exists>p\<in>set (policies_of sample_engine ''github''). ''repo:o/a'' \<in> set (cp_condition p) \<and>
      1 \<le> level_at (cp_grant p) ''issues'')"
proof -
  let ?req = "gm_of [(''issues'', ''read'')]"
  obtain d where d: "fst (Evaluate in_list_eval sample_engine (sample_input [''repo:o/a'']) ?req) = Inr d"
    using sample_decision by blast
  have "level_at (grant_for in_list_eval gm_empty (policies_of sample_engine ''github'') ''repo:o/a'') ''issues'' = 1"
    by (simp add: level_at_grant_for sample_policies matches_in_list level_at_of)
  then have "d_allowed d"
    unfolding allowed_iff [OF d]
    by (auto simp: sample_input_def resource_covered_def coversPermissions_iff canonical_def gm_lookup_of
        Satisfies_iff_level level_at_of sample_policies matches_in_list)
  from Evaluate_justified [OF d this, of "''repo:o/a''" "''issues''" "''read''"] d
  show ?thesis by (auto simp: sample_input_def gm_lookup_of matches_in_list)
qed

text \<open>C32. The decision does not depend on the order of the policies, on the order of the requested
  resources or on repetitions: for engines with the same set of policies for the issuer and
  requests naming the same set of resources, the verdict and the three lists are the same and each
  resource is granted the same level for every permission.\<close>

theorem Evaluate_order_irrelevant:
  assumes ev: "fst (Evaluate eval e inp required) = Inr d" and ev': "fst (Evaluate eval e' inp' required) = Inr d'"
    and same: "in_caller inp' = in_caller inp"
    and ps: "set (policies_of e (in_issuer inp)) = set (policies_of e' (in_issuer inp'))"
    and rs: "set (req_resources (in_request inp)) = set (req_resources (in_request inp'))"
  shows "d_allowed d = d_allowed d' \<and> d_matched d = d_matched d' \<and> d_skipped d = d_skipped d' \<and>
    d_uncovered d = d_uncovered d' \<and>
    (\<forall>r. map_option level_at (gm_lookup (d_grants d) r) = map_option level_at (gm_lookup (d_grants d') r))"
proof -
  have g: "level_at (grant_for eval c (policies_of e (in_issuer inp)) r) =
      level_at (grant_for eval c (policies_of e' (in_issuer inp')) r)" for c r
  proof -
    have "Satisfies (grant_for eval c (policies_of e (in_issuer inp)) r) (grant_for eval c (policies_of e' (in_issuer inp')) r)"
      and "Satisfies (grant_for eval c (policies_of e' (in_issuer inp')) r) (grant_for eval c (policies_of e (in_issuer inp)) r)"
      by (rule grant_for_mono, simp add: ps)+
    then show ?thesis by (auto simp: Satisfies_iff_level intro: antisym)
  qed
  have c: "resource_covered eval c (policies_of e (in_issuer inp)) required =
      resource_covered eval c (policies_of e' (in_issuer inp')) required" for c
    by (intro ext iffI; erule resource_covered_mono [rotated]) (simp_all add: ps)
  have "(req_resources (in_request inp) = []) = (req_resources (in_request inp') = [])"
    using rs by (metis set_empty)
  then show ?thesis
    unfolding Evaluate_fields [OF ev] Evaluate_fields [OF ev'] by (simp add: ps rs c g same)
qed

theorem Evaluate_order_irrelevant_witness:
  "\<exists>d d'. fst (Evaluate in_list_eval sample_engine (sample_input [''repo:o/a'', ''repo:o/b'']) gm_empty) = Inr d \<and>
    fst (Evaluate in_list_eval sample_engine (sample_input [''repo:o/b'', ''repo:o/a'']) gm_empty) = Inr d' \<and>
    d_matched d = d_matched d' \<and> d_uncovered d = d_uncovered d'"
proof -
  have "\<exists>d. fst (Evaluate in_list_eval sample_engine (sample_input [a, b]) gm_empty) = Inr d" for a b
  proof (cases "fst (Evaluate in_list_eval sample_engine (sample_input [a, b]) gm_empty)")
    case (Inl x)
    then show ?thesis unfolding Evaluate_cap by (simp add: sample_engine_def sample_input_def)
  qed auto
  then obtain d d' where d: "fst (Evaluate in_list_eval sample_engine (sample_input [''repo:o/a'', ''repo:o/b'']) gm_empty) = Inr d"
    "fst (Evaluate in_list_eval sample_engine (sample_input [''repo:o/b'', ''repo:o/a'']) gm_empty) = Inr d'" by blast
  from Evaluate_order_irrelevant [OF d] d show ?thesis by (auto simp: sample_input_def insert_commute)
qed

text \<open>C33. Adding policies never revokes: when every policy of the issuer in one engine is also in
  another, whatever the first allows the second allows too, as long as the second's cap admits the
  number of resources in the request (it may be smaller than the first's); a policy that fails at run
  time cannot block the others.\<close>

theorem Evaluate_monotone:
  assumes ev: "fst (Evaluate eval e inp required) = Inr d" and allowed: "d_allowed d"
    and ps: "set (policies_of e (in_issuer inp)) \<subseteq> set (policies_of e' (in_issuer inp))"
    and cap: "int (length (req_resources (in_request inp))) \<le> en_max_repositories e'"
  shows "\<exists>d'. fst (Evaluate eval e' inp required) = Inr d' \<and> d_allowed d'"
proof (cases "fst (Evaluate eval e' inp required)")
  case (Inl x)
  then show ?thesis using cap by (auto simp: Evaluate_cap)
next
  case (Inr d')
  with allowed ps show ?thesis
    by (auto simp: allowed_iff [OF ev] allowed_iff [OF Inr] intro: resource_covered_mono)
qed

theorem Evaluate_monotone_witness:
  "\<exists>d. fst (Evaluate in_list_eval (sample_engine\<lparr>en_max_repositories := 1\<rparr>) (sample_input [''repo:o/a''])
      gm_empty) = Inr d \<and> d_allowed d"
proof -
  obtain d where d: "fst (Evaluate in_list_eval sample_engine (sample_input [''repo:o/a'']) gm_empty) = Inr d"
    using sample_decision by blast
  have "d_allowed d"
    unfolding allowed_iff [OF d]
    by (auto simp: sample_input_def resource_covered_def coversPermissions_iff canonical_def
        Satisfies_iff_level sample_policies matches_in_list)
  from Evaluate_monotone [OF d this, of "sample_engine\<lparr>en_max_repositories := 1\<rparr>"] show ?thesis
    by (simp add: policies_of_def sample_engine_def sample_input_def)
qed


text \<open>C34. Issuers are isolated: dropping from the configuration every policy of the other issuers
  leaves an engine that \<open>New\<close> still builds and that decides every request of this issuer
  alike; the policies of another issuer are never evaluated.\<close>

theorem New_issuer_isolation:
  assumes new: "New lib cfg = (Inr e, w)"
    and cfg': "cfg' = cfg\<lparr>cfg_policies := filter (\<lambda>p. policy_issuer p = in_issuer inp) (cfg_policies cfg)\<rparr>"
  shows "\<exists>e' w'. New lib cfg' = (Inr e', w') \<and>
    (\<forall>eval required. Evaluate eval e' inp required = Evaluate eval e inp required)"
proof -
  have acc: "accepts lib cfg' = accepts lib cfg"
    by (simp add: accepts_def cfg' issuer_map_def)
  have "\<exists>e w. New lib cfg = (Inr e, w)" using new by blast
  then have "\<exists>e' w'. New lib cfg' = (Inr e', w')"
    unfolding New_success acc by (simp add: cfg')
  then obtain e' w' where e': "New lib cfg' = (Inr e', w')" by blast
  have "policies_of e' (in_issuer inp) = policies_of e (in_issuer inp)"
    using list_all2_unique [OF _ New_Inr(2) [OF new, of "in_issuer inp"] accepts_unique]
      New_Inr(2) [OF e', of "in_issuer inp"] unfolding acc by (simp add: cfg')
  moreover have "en_max_repositories e' = en_max_repositories e"
    using New_Inr(1) [OF new] New_Inr(1) [OF e'] by (simp add: cfg')
  ultimately have "Evaluate eval e' inp required = Evaluate eval e inp required" for eval required
    by (simp add: Evaluate_def checkListCaps_def)
  with e' show ?thesis by blast
qed

theorem New_issuer_isolation_witness:
  "\<exists>e w. New sample_lib (sample_config\<lparr>cfg_policies := filter (\<lambda>p. policy_issuer p = ''github'')
     (cfg_policies sample_config)\<rparr>) = (Inr e, w)"
proof -
  obtain e w where "New sample_lib sample_config = (Inr e, w)" using sample_New by blast
  from New_issuer_isolation [OF this refl, of "sample_input []"] show ?thesis
    by (auto simp: sample_input_def)
qed

text \<open>C35. \<open>New\<close> on a validated configuration fails for no reason but a condition that is not
  accepted: the CEL environment is available and every condition compiles, passes
  \<open>checkCondition\<close> for its issuer and becomes a program, or else an error is returned, which is
  never the unknown-issuer one. When it succeeds, the policies of an issuer are the configured
  ones, in configuration order, each with its own name and grant.\<close>

theorem New_validated:
  assumes "config_ok url_parse cfg"
  shows "((\<exists>e w. New lib cfg = (Inr e, w)) \<longleftrightarrow> NewEnv lib = Inr () \<and>
      (\<forall>p\<in>set (cfg_policies cfg). \<exists>iss ck prg. iss \<in> set (oidc_issuers (cfg_oidc cfg)) \<and>
        iss_name iss = policy_issuer p \<and> cel_compile lib (policy_condition p) = Inr ck \<and>
        ck_kind ck \<in> {DynKind, BoolKind} \<and> checkCondition (ck_ast ck) iss = Inr () \<and>
        cel_program lib ck (pol_cost_limit (cfg_policy cfg)) = Inr prg))
    \<and> (\<forall>n i. fst (New lib cfg) \<noteq> Inl (NoSuchIssuer n i))
    \<and> (\<forall>e w i. New lib cfg = (Inr e, w) \<longrightarrow>
        map (\<lambda>cp. (cp_name cp, cp_grant cp)) (policies_of e i) =
        map (\<lambda>p. (policy_name p, policy_grant p)) (filter (\<lambda>p. policy_issuer p = i) (cfg_policies cfg)))"
  (is "(?built \<longleftrightarrow> ?accepted) \<and> _ \<and> _")
proof -
  have d: "distinct (map iss_name (oidc_issuers (cfg_oidc cfg)))"
    and iss: "\<forall>p\<in>set (cfg_policies cfg). policy_issuer p \<in> iss_name ` set (oidc_issuers (cfg_oidc cfg))"
    using assms unfolding config_ok_def by blast+
  from iss have known: "\<forall>p\<in>set (cfg_policies cfg). gm_lookup (issuer_map cfg) (policy_issuer p) \<noteq> None"
    using issuer_map_total by blast
  have "?built \<longleftrightarrow> ?accepted"
    unfolding New_success accepts_def compiled_as_ex lookup_issuer_map [OF d] compile_Inr_iff by blast
  moreover have "fst (New lib cfg) \<noteq> Inl (NoSuchIssuer n i)" for n i
    using add_policies_NoSuchIssuer [OF known, of lib "pol_cost_limit (cfg_policy cfg)"]
    by (auto simp: New_def simp flip: issuer_map_def split: sum.splits)
  moreover have "map (\<lambda>cp. (cp_name cp, cp_grant cp)) (policies_of e i) =
      map (\<lambda>p. (policy_name p, policy_grant p)) (filter (\<lambda>p. policy_issuer p = i) (cfg_policies cfg))"
    if "New lib cfg = (Inr e, w)" for e w i
    using New_Inr(2) [OF that, of i]
    by (rule list_all2_map_eq) (auto simp: accepts_def compiled_as_def)
  ultimately show ?thesis by blast
qed

theorem New_validated_witness:
  "\<exists>e w. New sample_lib sample_config = (Inr e, w) \<and>
    map (\<lambda>cp. (cp_name cp, cp_grant cp)) (policies_of e ''ci'') = [(''ci'', gm_of [(''contents'', ''read'')])]"
proof -
  obtain e w where n: "New sample_lib sample_config = (Inr e, w)" using sample_New by blast
  with New_validated [OF sample_config_ok, of sample_lib] show ?thesis
    by (auto simp: sample_config_def sample_raw_config_def applyDefaults_def)
qed

text \<open>The aggregate of all configured grants is a ceiling: whatever an engine built from the
  configuration grants for a resource, \<open>AggregateGrantPermissions\<close> covers it.\<close>

lemma grant_below_aggregate:
  assumes new: "New lib cfg = (Inr e, w)"
    and ev: "fst (Evaluate eval e inp required) = Inr d" and g: "gm_lookup (d_grants d) r = Some grant"
  shows "Satisfies grant (AggregateGrantPermissions cfg)"
proof -
  have agg: "AggregateGrantPermissions cfg = foldl aggregate gm_empty (map policy_grant (cfg_policies cfg))"
    by (simp add: AggregateGrantPermissions_def foldl_map)
  have src: "cp_grant cp \<in> policy_grant ` set (cfg_policies cfg)" if "cp \<in> set (policies_of e i)" for cp i
    using list_all2_in_right [OF New_Inr(2) [OF new, of i] that] by (auto simp: accepts_def compiled_as_def)
  have grant: "grant = grant_for eval (in_caller inp) (policies_of e (in_issuer inp)) r"
    using g by (auto simp: Evaluate_fields(4) [OF ev] split: if_splits)
  show ?thesis
    unfolding grant agg grant_for_def mp.foldl_none_iff
    by (auto intro!: ag.foldl_upper dest!: src)
qed

end
