(* ===== verification/Resource.thy ===== *)
theory Resource
  imports Go_Regexp
begin

text \<open>
  The package \<open>internal/resource\<close>: resource identifiers \<open>repo:owner/name\<close>, \<open>org:name\<close>,
  \<open>enterprise:slug\<close> and the shorthand \<open>owner/name\<close>, parsed into a canonical form, and the
  consistency rules on the list of a request. Errors are the constructors of
  \<open>value_error\<close> and \<open>resource_error\<close>, one per \<open>fmt.Errorf\<close> of the source with the same
  arguments; the text is not rendered.
\<close>

section \<open>Data\<close>

type_synonym Kind = string

definition KindRepo :: Kind where [simp]: "KindRepo = ''repo''"
definition KindOrg :: Kind where [simp]: "KindOrg = ''org''"
definition KindEnterprise :: Kind where [simp]: "KindEnterprise = ''enterprise''"

record resource =
  res_kind :: Kind
  res_owner :: string
  res_name :: string
  res_raw :: string

datatype value_error =
    VEmpty
  | VTooLong nat
  | VBadOwner
  | VDots string
  | VBadRepoName
  | VBadSlug
  | VNotOwnerName
  | VOwner value_error
  | VName value_error

datatype resource_error =
    EmptyValue
  | InvalidRepo string value_error
  | InvalidOrg string value_error
  | InvalidEnterprise string value_error
  | UnknownPrefix string string
  | InvalidValue string value_error
  | ExpectedForm string
  | NoValues
  | MixedKinds Kind Kind
  | MixedOwners string string
  | SingleOnly Kind nat

definition maxOwnerLen :: nat where "maxOwnerLen = 39"
definition maxRepoLen :: nat where "maxRepoLen = 100"

definition ownerPattern :: re where
  "ownerPattern = hyphenated [(CHR ''A'', CHR ''Z''), (CHR ''a'', CHR ''z''), (CHR ''0'', CHR ''9'')]"

definition repoPattern :: re where
  "repoPattern = Plus (Class [(CHR ''A'', CHR ''Z''), (CHR ''a'', CHR ''z''), (CHR ''0'', CHR ''9''),
     (CHR ''.'', CHR ''.''), (CHR ''_'', CHR ''_''), (CHR ''-'', CHR ''-'')])"

definition slugPattern :: re where
  "slugPattern = hyphenated [(CHR ''a'', CHR ''z''), (CHR ''0'', CHR ''9'')]"

section \<open>Parsing one value\<close>

definition requireOwner :: "string \<Rightarrow> value_error + string" where
  "requireOwner value =
     (if value = '''' then Inl VEmpty
      else if length value > maxOwnerLen then Inl (VTooLong maxOwnerLen)
      else if \<not> match_string ownerPattern value then Inl VBadOwner
      else Inr value)"

definition requireRepoName :: "string \<Rightarrow> value_error + string" where
  "requireRepoName value =
     (if value = '''' then Inl VEmpty
      else if length value > maxRepoLen then Inl (VTooLong maxRepoLen)
      else if value = ''.'' \<or> value = ''..'' then Inl (VDots value)
      else if \<not> match_string repoPattern value then Inl VBadRepoName
      else Inr value)"

definition requireSlug :: "string \<Rightarrow> value_error + string" where
  "requireSlug value =
     (if value = '''' then Inl VEmpty
      else if \<not> match_string slugPattern value then Inl VBadSlug
      else Inr value)"

definition splitPrefix :: "string \<Rightarrow> (string \<times> string) option" where
  "splitPrefix raw =
     (case index_of (CHR '':'') raw of
        None \<Rightarrow> None
      | Some idx \<Rightarrow>
          (let candidate = take idx raw in
           if candidate = KindRepo \<or> candidate = KindOrg \<or> candidate = KindEnterprise
           then Some (candidate, drop (idx + 1) raw) else None))"

definition splitOwnerName :: "string \<Rightarrow> value_error + string \<times> string" where
  "splitOwnerName remainder =
     (case cut_at (CHR ''/'') remainder of
        None \<Rightarrow> Inl VNotOwnerName
      | Some (owner, name) \<Rightarrow>
          bind_r (map_err VOwner (requireOwner owner)) (\<lambda>owner.
          bind_r (map_err VName (requireRepoName name)) (\<lambda>name.
          Inr (owner, name))))"

definition repo_resource :: "string \<Rightarrow> string \<Rightarrow> resource" where
  "repo_resource owner name = \<lparr>res_kind = KindRepo, res_owner = owner, res_name = name,
     res_raw = ''repo:'' @ owner @ ''/'' @ name\<rparr>"

definition org_resource :: "string \<Rightarrow> resource" where
  "org_resource owner = \<lparr>res_kind = KindOrg, res_owner = owner, res_name = '''',
     res_raw = ''org:'' @ owner\<rparr>"

definition enterprise_resource :: "string \<Rightarrow> resource" where
  "enterprise_resource owner = \<lparr>res_kind = KindEnterprise, res_owner = owner, res_name = '''',
     res_raw = ''enterprise:'' @ owner\<rparr>"

definition Parse :: "string \<Rightarrow> resource_error + resource" where
  "Parse raw =
     (if raw = '''' then Inl EmptyValue
      else case splitPrefix raw of
        Some (pre, remainder) \<Rightarrow>
          if pre = KindRepo then
            bind_r (map_err (InvalidRepo raw) (splitOwnerName remainder))
              (\<lambda>(owner, name). Inr (repo_resource owner name))
          else if pre = KindOrg then
            bind_r (map_err (InvalidOrg raw) (requireOwner remainder))
              (\<lambda>owner. Inr (org_resource owner))
          else if pre = KindEnterprise then
            bind_r (map_err (InvalidEnterprise raw) (requireSlug remainder))
              (\<lambda>owner. Inr (enterprise_resource owner))
          else Inl (UnknownPrefix pre raw)
      | None \<Rightarrow>
          if CHR ''/'' \<in> set raw then
            bind_r (map_err (InvalidValue raw) (splitOwnerName raw))
              (\<lambda>(owner, name). Inr (repo_resource owner name))
          else Inl (ExpectedForm raw))"

section \<open>The resources of a request\<close>

definition same_target :: "resource \<Rightarrow> resource \<Rightarrow> resource_error + unit" where
  "same_target first r =
     (if res_kind r \<noteq> res_kind first then Inl (MixedKinds (res_kind first) (res_kind r))
      else if res_owner r \<noteq> res_owner first then Inl (MixedOwners (res_owner first) (res_owner r))
      else Inr ())"

definition ParseAll :: "string list \<Rightarrow> resource_error + resource list" where
  "ParseAll values =
     (if length values = 0 then Inl NoValues
      else bind_r (map_r Parse values) (\<lambda>resources.
        (let first = hd resources in
         bind_r (each_r (same_target first) (tl resources)) (\<lambda>_.
         if (res_kind first = KindOrg \<or> res_kind first = KindEnterprise) \<and> length resources > 1
         then Inl (SingleOnly (res_kind first) (length resources))
         else Inr resources))))"

text \<open>
  \<open>Owner\<close> indexes the first resource, which panics on an empty slice: \<^const>\<open>None\<close> here.
\<close>

definition Owner :: "resource list \<Rightarrow> string option" where
  "Owner resources = (case resources of [] \<Rightarrow> None | r # _ \<Rightarrow> Some (res_owner r))"

text \<open>A \<open>nil\<close> slice and an empty one are the same list.\<close>

definition RepoFullNames :: "resource list \<Rightarrow> string list" where
  "RepoFullNames resources =
     (if length resources = 0 \<or> res_kind (hd resources) \<noteq> KindRepo then []
      else map (\<lambda>r. res_owner r @ ''/'' @ res_name r) resources)"

definition RepoShortNames :: "resource list \<Rightarrow> string list" where
  "RepoShortNames resources =
     (if length resources = 0 \<or> res_kind (hd resources) \<noteq> KindRepo then []
      else map res_name resources)"

definition RawStrings :: "resource list \<Rightarrow> string list" where
  "RawStrings resources = map res_raw resources"

section \<open>What the validators accept\<close>

text \<open>
  The specification of the three kinds of names: a login has 1 to 39 alphanumeric characters with
  single hyphens inside; a repository name 1 to 100 characters of a fixed set and is not a dot
  segment; a slug is a lowercase hyphenated word.
\<close>

definition login :: "string \<Rightarrow> bool" where
  "login s \<longleftrightarrow> length s \<le> 39 \<and> hyphen_scan alnum False s"

definition repo_name :: "string \<Rightarrow> bool" where
  "repo_name s \<longleftrightarrow> s \<noteq> '''' \<and> length s \<le> 100 \<and> s \<noteq> ''.'' \<and> s \<noteq> ''..'' \<and>
     (\<forall>c\<in>set s. alnum c \<or> c = CHR ''.'' \<or> c = CHR ''_'' \<or> c = CHR ''-'')"

definition slug :: "string \<Rightarrow> bool" where
  "slug s \<longleftrightarrow> hyphen_scan lower_alnum False s"

lemma match_ownerPattern: "match_string ownerPattern s \<longleftrightarrow> hyphen_scan alnum False s"
  by (simp add: ownerPattern_def match_hyphenated in_class_alnum)

lemma match_slugPattern: "match_string slugPattern s \<longleftrightarrow> hyphen_scan lower_alnum False s"
  by (simp add: slugPattern_def match_hyphenated in_class_lower)

lemma match_repoPattern:
  "match_string repoPattern s \<longleftrightarrow> s \<noteq> [] \<and>
    (\<forall>c\<in>set s. alnum c \<or> c = CHR ''.'' \<or> c = CHR ''_'' \<or> c = CHR ''-'')"
proof -
  have "in_class [(CHR ''A'', CHR ''Z''), (CHR ''a'', CHR ''z''), (CHR ''0'', CHR ''9''),
      (CHR ''.'', CHR ''.''), (CHR ''_'', CHR ''_''), (CHR ''-'', CHR ''-'')] c
    \<longleftrightarrow> alnum c \<or> c = CHR ''.'' \<or> c = CHR ''_'' \<or> c = CHR ''-''" for c
    using in_class_single [of _ c] by (simp add: in_class_def alnum_def)
  then show ?thesis by (simp add: repoPattern_def match_Plus_Class)
qed

lemma requireOwner_Inr_iff [result_iff]: "requireOwner s = Inr t \<longleftrightarrow> login s \<and> t = s"
  by (auto simp: requireOwner_def login_def maxOwnerLen_def match_ownerPattern)

lemma requireRepoName_Inr_iff [result_iff]: "requireRepoName s = Inr t \<longleftrightarrow> repo_name s \<and> t = s"
  by (auto simp: requireRepoName_def repo_name_def maxRepoLen_def match_repoPattern)

lemma requireSlug_Inr_iff [result_iff]: "requireSlug s = Inr t \<longleftrightarrow> slug s \<and> t = s"
  by (auto simp: requireSlug_def slug_def match_slugPattern)

lemma login_chars: "login s \<Longrightarrow> c \<in> set s \<Longrightarrow> alnum c \<or> c = CHR ''-''"
  by (auto simp: login_def dest: hyphen_scan_chars)

lemma slug_chars: "slug s \<Longrightarrow> c \<in> set s \<Longrightarrow> lower_alnum c \<or> c = CHR ''-''"
  by (auto simp: slug_def dest: hyphen_scan_chars)

lemma login_no_sep: "login s \<Longrightarrow> CHR ''/'' \<notin> set s" "login s \<Longrightarrow> CHR '':'' \<notin> set s"
  by (auto dest: login_chars)

lemma repo_name_no_sep: "repo_name s \<Longrightarrow> CHR ''/'' \<notin> set s" "repo_name s \<Longrightarrow> CHR '':'' \<notin> set s"
  by (auto simp: repo_name_def)

lemma slug_no_sep: "slug s \<Longrightarrow> CHR ''/'' \<notin> set s" "slug s \<Longrightarrow> CHR '':'' \<notin> set s"
  by (auto dest: slug_chars)

lemma login_nonempty: "login s \<Longrightarrow> s \<noteq> ''''"
  by (auto simp: login_def)

section \<open>Well-formed resources\<close>

definition wf_resource :: "resource \<Rightarrow> bool" where
  "wf_resource r \<longleftrightarrow>
     (login (res_owner r) \<and> repo_name (res_name r) \<and> r = repo_resource (res_owner r) (res_name r)) \<or>
     (login (res_owner r) \<and> r = org_resource (res_owner r)) \<or>
     (slug (res_owner r) \<and> r = enterprise_resource (res_owner r))"

lemmas resource_defs = repo_resource_def org_resource_def enterprise_resource_def

lemma wf_resource_iff:
  "wf_resource r \<longleftrightarrow> (\<exists>u v. login u \<and> repo_name v \<and> r = repo_resource u v) \<or>
     (\<exists>u. login u \<and> r = org_resource u) \<or> (\<exists>u. slug u \<and> r = enterprise_resource u)"
  unfolding wf_resource_def by (metis resource.select_convs(2,3) resource_defs)

lemma wf_resource_intros [intro]:
  "login u \<Longrightarrow> repo_name v \<Longrightarrow> wf_resource (repo_resource u v)"
  "login u \<Longrightarrow> wf_resource (org_resource u)"
  "slug u \<Longrightarrow> wf_resource (enterprise_resource u)"
  by (auto simp: wf_resource_iff)

lemma resource_kinds [simp]:
  "res_kind (repo_resource u v) = KindRepo"
  "res_kind (org_resource u) = KindOrg"
  "res_kind (enterprise_resource u) = KindEnterprise"
  by (simp_all add: resource_defs)

lemma wf_resource_kind:
  "wf_resource r \<Longrightarrow> res_kind r = KindRepo \<or> res_kind r = KindOrg \<or> res_kind r = KindEnterprise"
  unfolding wf_resource_iff by (elim disjE exE conjE) (simp_all only: resource_kinds, simp_all)

lemma splitOwnerName_Inr_iff [result_iff]:
  "splitOwnerName s = Inr (u, v) \<longleftrightarrow> login u \<and> repo_name v \<and> s = u @ ''/'' @ v"
proof
  assume "splitOwnerName s = Inr (u, v)"
  then show "login u \<and> repo_name v \<and> s = u @ ''/'' @ v"
    by (auto simp: splitOwnerName_def result_iff cut_at_Some_iff split: option.splits)
next
  assume "login u \<and> repo_name v \<and> s = u @ ''/'' @ v"
  then show "splitOwnerName s = Inr (u, v)"
    by (simp add: splitOwnerName_def cut_at_append login_no_sep result_iff)
qed

lemma splitPrefix_append:
  assumes "k \<in> {KindRepo, KindOrg, KindEnterprise}"
  shows "splitPrefix (k @ '':'' @ s) = Some (k, s)"
  using assms index_of_append [of "CHR '':''" k s] by (auto simp: splitPrefix_def)

lemma splitPrefix_Some:
  "splitPrefix raw = Some (k, s) \<Longrightarrow> k \<in> {KindRepo, KindOrg, KindEnterprise} \<and> raw = k @ '':'' @ s"
  by (auto simp: splitPrefix_def Let_def split: option.splits if_splits dest!: index_of_split)

lemma Parse_wf: "Parse raw = Inr r \<Longrightarrow> wf_resource r"
  by (auto simp: Parse_def result_iff split: if_splits option.splits)

lemma Parse_repo_raw:
  assumes "login u" and "repo_name v"
  shows "Parse (res_raw (repo_resource u v)) = Inr (repo_resource u v)"
proof -
  have raw: "res_raw (repo_resource u v) = KindRepo @ '':'' @ (u @ ''/'' @ v)"
    by (simp add: repo_resource_def)
  have "splitOwnerName (u @ ''/'' @ v) = Inr (u, v)"
    using assms by (simp only: splitOwnerName_Inr_iff)
  with splitPrefix_append [of KindRepo "u @ ''/'' @ v"] show ?thesis
    by (simp add: Parse_def raw)
qed

lemma Parse_org_raw:
  assumes "login u"
  shows "Parse (res_raw (org_resource u)) = Inr (org_resource u)"
proof -
  have raw: "res_raw (org_resource u) = KindOrg @ '':'' @ u" by (simp add: org_resource_def)
  have "requireOwner u = Inr u" using assms by (simp add: requireOwner_Inr_iff)
  with splitPrefix_append [of KindOrg u] show ?thesis by (simp add: Parse_def raw)
qed

lemma Parse_enterprise_raw:
  assumes "slug u"
  shows "Parse (res_raw (enterprise_resource u)) = Inr (enterprise_resource u)"
proof -
  have raw: "res_raw (enterprise_resource u) = KindEnterprise @ '':'' @ u"
    by (simp add: enterprise_resource_def)
  have "requireSlug u = Inr u" using assms by (simp add: requireSlug_Inr_iff)
  with splitPrefix_append [of KindEnterprise u] show ?thesis by (simp add: Parse_def raw)
qed

lemma Parse_raw: "wf_resource r \<Longrightarrow> Parse (res_raw r) = Inr r"
  by (auto simp: wf_resource_iff Parse_repo_raw Parse_org_raw Parse_enterprise_raw)

lemma wf_resource_inj: "wf_resource r \<Longrightarrow> wf_resource r' \<Longrightarrow> res_raw r = res_raw r' \<Longrightarrow> r = r'"
  by (metis Parse_raw sum.inject(2))

lemma same_target_Inr_iff [result_iff]:
  "same_target f r = Inr u \<longleftrightarrow> res_kind r = res_kind f \<and> res_owner r = res_owner f"
  by (simp add: same_target_def)

lemma ParseAll_Inr_iff:
  "ParseAll values = Inr rs \<longleftrightarrow>
    rs \<noteq> [] \<and> list_all2 (\<lambda>v r. Parse v = Inr r) values rs \<and>
    (\<forall>r\<in>set rs. res_kind r = res_kind (hd rs) \<and> res_owner r = res_owner (hd rs)) \<and>
    (res_kind (hd rs) = KindRepo \<or> length rs = 1)"
proof (cases "values = []")
  case True
  then show ?thesis by (auto simp: ParseAll_def)
next
  case False
  have distinct: "KindRepo \<noteq> KindOrg" "KindRepo \<noteq> KindEnterprise" by simp_all
  show ?thesis
  proof (cases "list_all2 (\<lambda>v r. Parse v = Inr r) values rs")
    case False
    then show ?thesis by (auto simp: ParseAll_def Let_def result_iff)
  next
    case True
    then obtain r rs' where rs: "rs = r # rs'" using False by (cases rs) auto
    have "wf_resource r" using True rs by (auto simp: list_all2_Cons2 intro: Parse_wf)
    note kind = wf_resource_kind [OF this]
    have "ParseAll values = Inr rs \<longleftrightarrow> (\<forall>x\<in>set rs'. res_kind x = res_kind r \<and> res_owner x = res_owner r)
      \<and> \<not> ((res_kind r = KindOrg \<or> res_kind r = KindEnterprise) \<and> rs' \<noteq> [])"
      using True \<open>values \<noteq> []\<close> by (auto simp: ParseAll_def Let_def result_iff rs)
    then show ?thesis using True kind distinct by (auto simp: rs)
  qed
qed

lemma list_all2_Parse_wf:
  "list_all2 (\<lambda>v r. Parse v = Inr r) values rs \<Longrightarrow> \<forall>r\<in>set rs. wf_resource r"
  by (induction rule: list_all2_induct) (auto intro: Parse_wf)

lemma ParseAll_wf: "ParseAll values = Inr rs \<Longrightarrow> \<forall>r\<in>set rs. wf_resource r"
  unfolding ParseAll_Inr_iff by (elim conjE, rule list_all2_Parse_wf)

lemma ParseAll_nonempty: "ParseAll values = Inr rs \<Longrightarrow> rs \<noteq> []"
  unfolding ParseAll_Inr_iff by blast

lemma ParseAll_kind:
  "ParseAll values = Inr rs \<Longrightarrow>
   res_kind (hd rs) = KindRepo \<or> res_kind (hd rs) = KindOrg \<or> res_kind (hd rs) = KindEnterprise"
  by (rule wf_resource_kind) (metis ParseAll_nonempty ParseAll_wf hd_in_set)


section \<open>Properties of resources\<close>

text \<open>C16. Parsing is a normal form: what \<open>Parse\<close> accepts is a well-formed resource (a login of at most
  39 characters, a repository name that is no path segment, or a slug) whose canonical string parses
  to the same resource again, and is the input itself unless the input is the shorthand
  \<open>owner/name\<close>; every well-formed resource is the result of parsing its canonical string; two
  well-formed resources with the same canonical string are the same.\<close>

theorem Parse_normal_form:
  "(Parse s = Inr r \<longrightarrow> wf_resource r \<and> Parse (res_raw r) = Inr r \<and>
      (res_raw r = s \<or> res_raw r = ''repo:'' @ s)) \<and>
    (wf_resource r \<longrightarrow> Parse (res_raw r) = Inr r) \<and>
    (wf_resource r \<and> wf_resource r' \<and> res_raw r = res_raw r' \<longrightarrow> r = r')"
proof (intro conjI impI)
  assume p: "Parse s = Inr r"
  show wf: "wf_resource r" by (rule Parse_wf [OF p])
  show "Parse (res_raw r) = Inr r" by (rule Parse_raw [OF wf])
  show "res_raw r = s \<or> res_raw r = ''repo:'' @ s"
  proof (cases "splitPrefix s")
    case None
    with p obtain u v where "splitOwnerName s = Inr (u, v)" "r = repo_resource u v"
      by (auto simp: Parse_def result_iff split: if_splits)
    then show ?thesis by (simp add: splitOwnerName_Inr_iff repo_resource_def)
  next
    case (Some kr)
    obtain k rest where kr: "kr = (k, rest)" by force
    from splitPrefix_Some [OF Some [unfolded kr]] have s: "s = k @ '':'' @ rest" by simp
    with p Some kr show ?thesis
      by (auto simp: Parse_def result_iff resource_defs split: if_splits)
  qed
qed (auto intro: Parse_raw wf_resource_inj)

theorem Parse_normal_form_witness: "Parse (res_raw (repo_resource ''o'' ''a'')) = Inr (repo_resource ''o'' ''a'')"
proof -
  have "case Parse ''o/a'' of Inl e \<Rightarrow> False | Inr r \<Rightarrow> r = repo_resource ''o'' ''a''" by code_simp
  then have "Parse ''o/a'' = Inr (repo_resource ''o'' ''a'')" by (simp split: sum.splits)
  then show ?thesis using Parse_normal_form [of "''o/a''" "repo_resource ''o'' ''a''"] by blast
qed

lemma sample_parse: "ParseAll [''o/a''] = Inr [repo_resource ''o'' ''a'']"
proof -
  have "case ParseAll [''o/a''] of Inl e \<Rightarrow> False | Inr rs \<Rightarrow> rs = [repo_resource ''o'' ''a'']" by code_simp
  then show ?thesis by (simp split: sum.splits)
qed

text \<open>C17. \<open>ParseAll\<close> accepts a list exactly when it is not empty, every value parses, all resources have
  one kind and one owner, and a list of organizations or enterprises has one element; so one
  installation owns every accepted request, \<open>Owner\<close> is its owner and never panics.\<close>

theorem ParseAll_consistent:
  "(ParseAll values = Inr rs \<longleftrightarrow> rs \<noteq> [] \<and> map Parse values = map Inr rs \<and>
      list_all (\<lambda>r. res_kind r = res_kind (hd rs) \<and> res_owner r = res_owner (hd rs)) rs \<and>
      (res_kind (hd rs) = KindRepo \<or> length rs = 1)) \<and>
    (ParseAll values = Inr rs \<longrightarrow> list_all (\<lambda>r. Owner rs = Some (res_owner r) \<and> wf_resource r) rs)"
proof
  have "map Parse values = map Inr rs \<longleftrightarrow> list_all2 (\<lambda>v r. Parse v = Inr r) values rs"
    by (simp add: list_all2_conv_all_nth list_eq_iff_nth_eq) (metis nth_map)
  then show iff: "ParseAll values = Inr rs \<longleftrightarrow> rs \<noteq> [] \<and> map Parse values = map Inr rs \<and>
      list_all (\<lambda>r. res_kind r = res_kind (hd rs) \<and> res_owner r = res_owner (hd rs)) rs \<and>
      (res_kind (hd rs) = KindRepo \<or> length rs = 1)"
    by (simp add: ParseAll_Inr_iff list_all_iff)
  show "ParseAll values = Inr rs \<longrightarrow> list_all (\<lambda>r. Owner rs = Some (res_owner r) \<and> wf_resource r) rs"
  proof
    assume p: "ParseAll values = Inr rs"
    have ne: "rs \<noteq> []" and same: "\<And>r. r \<in> set rs \<Longrightarrow> res_owner r = res_owner (hd rs)"
      using p unfolding ParseAll_Inr_iff by blast+
    from ne have "Owner rs = Some (res_owner (hd rs))" by (cases rs) (simp_all add: Owner_def)
    then show "list_all (\<lambda>r. Owner rs = Some (res_owner r) \<and> wf_resource r) rs"
      unfolding list_all_iff using same ParseAll_wf [OF p] by metis
  qed
qed

theorem ParseAll_consistent_witness:
  "Owner [repo_resource ''o'' ''a''] = Some ''o''"
proof -
  show ?thesis using sample_parse ParseAll_consistent [of "[''o/a'']" "[repo_resource ''o'' ''a'']"]
    by (simp add: repo_resource_def)
qed

end
