(* ===== verification/Policy_Sound.thy ===== *)
theory Policy_Sound
  imports Policy_Engine Resource
begin

text \<open>
  What \<open>checkCondition\<close> is for: an accepted condition, evaluated by CEL, cannot hold for every
  resource nor for every caller.

  CEL itself is a parameter \<open>ev ast caller resource\<close>, the value of a syntax tree when \<open>caller\<close> is
  bound to the claims and \<open>request\<close> to the resource (and the one-element list of it). The laws
  below are what the language definition documents of the operators the checks look at; the
  predicate \<open>cel_laws\<close> collects them, and \<open>mini_eval\<close> is a function that satisfies them.
\<close>

section \<open>The documented laws of CEL\<close>

type_synonym cel_sem = "expr \<Rightarrow> string gomap \<Rightarrow> string \<Rightarrow> string + cel_val"

abbreviation holds_at :: "cel_sem \<Rightarrow> expr \<Rightarrow> string gomap \<Rightarrow> string \<Rightarrow> bool" where
  "holds_at ev e c r \<equiv> ev e c r = Inr (VBool True)"

text \<open>A disjunction is true only if an operand is, a conjunction only if all are.\<close>

definition law_or :: "cel_sem \<Rightarrow> bool" where
  "law_or ev \<longleftrightarrow> (\<forall>i args c r. holds_at ev (Call i LogicalOr None args) c r \<longrightarrow>
     (\<exists>a\<in>set args. holds_at ev a c r))"

definition law_and :: "cel_sem \<Rightarrow> bool" where
  "law_and ev \<longleftrightarrow> (\<forall>i args c r. holds_at ev (Call i LogicalAnd None args) c r \<longrightarrow>
     (\<forall>a\<in>set args. holds_at ev a c r))"

text \<open>
  A string equals only the same string, a one-element list of a string only the same list, also
  when the operands are of different types.
\<close>

definition law_equality :: "(cel_val \<Rightarrow> cel_val \<Rightarrow> bool) \<Rightarrow> bool" where
  "law_equality eq \<longleftrightarrow>
     (\<forall>s v. (eq (VString s) v \<longrightarrow> v = VString s) \<and> (eq v (VString s) \<longrightarrow> v = VString s) \<and>
       (eq (VList [VString s]) v \<longrightarrow> v = VList [VString s]) \<and>
       (eq v (VList [VString s]) \<longrightarrow> v = VList [VString s]))"

definition law_equals :: "cel_sem \<Rightarrow> (cel_val \<Rightarrow> cel_val \<Rightarrow> bool) \<Rightarrow> bool" where
  "law_equals ev eq \<longleftrightarrow> (\<forall>i a b c r. holds_at ev (Call i Equals None [a, b]) c r \<longrightarrow>
     (\<exists>u v. ev a c r = Inr u \<and> ev b c r = Inr v \<and> eq u v))"

text \<open>Membership: in the elements of a list or in the keys of a map.\<close>

definition members :: "cel_val \<Rightarrow> cel_val list" where
  "members v = (case v of VList vs \<Rightarrow> vs | VMap kvs \<Rightarrow> map fst kvs | _ \<Rightarrow> [])"

definition law_in :: "cel_sem \<Rightarrow> (cel_val \<Rightarrow> cel_val \<Rightarrow> bool) \<Rightarrow> bool" where
  "law_in ev eq \<longleftrightarrow> (\<forall>i a b c r. holds_at ev (Call i In None [a, b]) c r \<longrightarrow>
     (\<exists>u v w. ev a c r = Inr u \<and> ev b c r = Inr v \<and> w \<in> set (members v) \<and> eq u w))"

definition law_list :: "cel_sem \<Rightarrow> bool" where
  "law_list ev \<longleftrightarrow> (\<forall>i es c r v. ev (ListLit i es) c r = Inr v \<longrightarrow>
     (\<exists>vs. v = VList vs \<and> list_all2 (\<lambda>e v. ev e c r = Inr v) es vs))"

definition law_literal :: "cel_sem \<Rightarrow> bool" where
  "law_literal ev \<longleftrightarrow> (\<forall>i v c r. ev (Literal i v) c r = Inr v)"

text \<open>Reading the request and a claim (an absent claim is an error), and concatenation.\<close>

definition law_request :: "cel_sem \<Rightarrow> bool" where
  "law_request ev \<longleftrightarrow> (\<forall>e c r v. ev e c r = Inr v \<longrightarrow> \<not> is_test_only e \<longrightarrow>
     (isRequestField e ''resource'' \<longrightarrow> v = VString r) \<and>
     (isRequestField e ''resources'' \<longrightarrow> v = VList [VString r]))"

definition law_claim :: "cel_sem \<Rightarrow> bool" where
  "law_claim ev \<longleftrightarrow> (\<forall>e c r v k. callerClaim e = Some k \<longrightarrow> ev e c r = Inr v \<longrightarrow>
     (\<exists>s. gm_lookup c k = Some s \<and> v = VString s))"

definition law_add :: "cel_sem \<Rightarrow> bool" where
  "law_add ev \<longleftrightarrow> (\<forall>i t a b c r v. ev (Call i Add t [a, b]) c r = Inr v \<longrightarrow>
     (\<exists>u w. ev a c r = Inr u \<and> ev b c r = Inr w \<and>
       (\<forall>x y. u = VString x \<longrightarrow> w = VString y \<longrightarrow> v = VString (x @ y))))"

text \<open>Evaluation reads no variable but those that occur in the tree.\<close>

definition law_scope :: "cel_sem \<Rightarrow> bool" where
  "law_scope ev \<longleftrightarrow> (\<forall>e c c' r r'.
     (\<not> references e VarRequest \<longrightarrow> ev e c r = ev e c r') \<and>
     (\<not> references e VarCaller \<longrightarrow> ev e c r = ev e c' r))"

definition cel_laws :: "cel_sem \<Rightarrow> (cel_val \<Rightarrow> cel_val \<Rightarrow> bool) \<Rightarrow> bool" where
  "cel_laws ev eq \<longleftrightarrow> law_or ev \<and> law_and ev \<and> law_equality eq \<and> law_equals ev eq \<and> law_in ev eq \<and>
     law_list ev \<and> law_literal ev \<and> law_request ev \<and> law_claim ev \<and> law_add ev \<and> law_scope ev"

text \<open>
  What the parser guarantees of a tree: the logical and comparison operators are not member calls,
  and no two nodes share an identifier.
\<close>

definition plain_operators :: "expr \<Rightarrow> bool" where
  "plain_operators ast \<longleftrightarrow> (\<forall>d\<in>set (descendants ast).
     case d of Call _ fn t _ \<Rightarrow> fn \<in> {LogicalOr, LogicalAnd, Equals, In} \<longrightarrow> t = None | _ \<Rightarrow> True)"

definition parsed :: "expr \<Rightarrow> bool" where
  "parsed ast \<longleftrightarrow> plain_operators ast \<and>
     (\<forall>d\<in>set (descendants ast). distinct (map expr_id (children d)))"

section \<open>Conditions that constrain\<close>

lemma operators_distinct [simp]:
  "LogicalOr \<noteq> LogicalAnd" "LogicalAnd \<noteq> LogicalOr" "Equals \<noteq> LogicalOr" "Equals \<noteq> LogicalAnd"
  "In \<noteq> LogicalOr" "In \<noteq> LogicalAnd" "Equals \<noteq> In" "In \<noteq> Equals" "Index \<noteq> Add"
  by (simp_all add: operator_defs)

text \<open>
  A condition that constrains by \<open>bound\<close> and holds contains a comparison accepted by \<open>bound\<close>
  that holds: the shape of every soundness argument below.
\<close>

definition comparison :: "(expr \<Rightarrow> expr \<Rightarrow> bool) \<Rightarrow> expr \<Rightarrow> bool" where
  "comparison bound e \<longleftrightarrow> (\<exists>i fn a b. e = Call i fn None [a, b] \<and> (fn = Equals \<or> fn = In) \<and>
     (bound a b \<or> bound b a))"

lemma constrains_by_Call:
  "constrains_by bound (Call i fn None args) \<longleftrightarrow>
    (if fn = LogicalOr then \<forall>a\<in>set args. constrains_by bound a
     else if fn = LogicalAnd then \<exists>a\<in>set args. constrains_by bound a
     else (fn = Equals \<or> fn = In) \<and> length args = 2 \<and> (bound (args ! 0) (args ! 1) \<or> bound (args ! 1) (args ! 0)))"
  by (subst constrains_by.simps) (auto simp: list_ex_iff)

lemma constrains_by_fn:
  "constrains_by bound e \<Longrightarrow> \<exists>i fn t args. e = Call i fn t args \<and> fn \<in> {LogicalOr, LogicalAnd, Equals, In}"
  by (subst (asm) constrains_by.simps) (auto simp: Let_def split: expr.splits if_splits)

lemma length_2_conv: "length xs = 2 \<longleftrightarrow> (\<exists>a b. xs = [a, b])"
  by (auto simp: numeral_2_eq_2 length_Suc_conv)

lemma constrained_comparison:
  assumes "constrains_by bound e" and "e \<in> set (descendants ast)" and "plain_operators ast"
    and laws: "law_or ev" "law_and ev" and "holds_at ev e c r"
  shows "\<exists>d\<in>set (descendants ast). comparison bound d \<and> holds_at ev d c r"
  using assms(1,2,6)
proof (induction "size e" arbitrary: e rule: less_induct)
  case less
  from constrains_by_fn [OF less.prems(1)] obtain i fn t args where e: "e = Call i fn t args"
    and fn: "fn \<in> {LogicalOr, LogicalAnd, Equals, In}" by blast
  have t: "t = None" using assms(3) less.prems(2) fn unfolding plain_operators_def e by fastforce
  have sub: "a \<in> set (descendants ast)" "size a < size e" if "a \<in> set args" for a
    using that descendants_trans [OF less.prems(2) child_in_descendants, of a] size_children [of a e]
    by (auto simp: e t)
  consider "fn = LogicalOr" | "fn = LogicalAnd" | "fn = Equals \<or> fn = In" using fn by blast
  then show ?case
  proof cases
    case 1
    then obtain a where a: "a \<in> set args" "holds_at ev a c r"
      using laws(1) less.prems(3) unfolding law_or_def e t by blast
    moreover have "constrains_by bound a"
      using less.prems(1) a 1 by (auto simp: e t constrains_by_Call)
    ultimately show ?thesis using less.hyps sub by blast
  next
    case 2
    then obtain a where a: "a \<in> set args" "constrains_by bound a"
      using less.prems(1) by (auto simp: e t constrains_by_Call)
    moreover have "holds_at ev a c r"
      using laws(2) less.prems(3) a 2 unfolding law_and_def e t by blast
    ultimately show ?thesis using less.hyps sub by blast
  next
    case 3
    then have "comparison bound e"
      using less.prems(1) by (auto simp: e t constrains_by_Call comparison_def length_2_conv)
    with less.prems show ?thesis by blast
  qed
qed

lemma accepted_comparison:
  assumes "cel_laws ev eq" and "plain_operators ast" and "constrains_by bound ast" and "holds_at ev ast c r"
  obtains i fn a b ref other where "Call i fn None [a, b] \<in> set (descendants ast)" "fn = Equals \<or> fn = In"
    "holds_at ev (Call i fn None [a, b]) c r" "a = ref \<and> b = other \<or> a = other \<and> b = ref" "bound ref other"
proof -
  have laws: "law_or ev" "law_and ev" using assms(1) by (simp_all add: cel_laws_def)
  obtain d where d: "d \<in> set (descendants ast)" "comparison bound d" "holds_at ev d c r"
    using constrained_comparison [OF assms(3) self_in_descendants assms(2) laws assms(4)] by blast
  then show thesis using that unfolding comparison_def by metis
qed

text \<open>A comparison that holds makes the values of its operands equal, or one a member of the other.\<close>

lemma comparison_values:
  assumes "cel_laws ev eq" and "fn = Equals \<or> fn = In" and "holds_at ev (Call i fn None [a, b]) c r"
  shows "\<exists>u v. ev a c r = Inr u \<and> ev b c r = Inr v \<and>
    (fn = Equals \<and> eq u v \<or> fn = In \<and> (\<exists>w\<in>set (members v). eq u w))"
  using assms by (auto simp: cel_laws_def law_equals_def law_in_def) blast+


text \<open>The strings a value can pin its partner in a comparison to.\<close>

definition strings_of :: "cel_val \<Rightarrow> string set" where
  "strings_of v = {s. v = VString s \<or> v = VList [VString s] \<or>
     VString s \<in> set (members v) \<or> VList [VString s] \<in> set (members v)}"

lemma finite_strings_of: "finite (strings_of v)"
proof -
  have "finite {s. f s \<in> set xs}" if "inj f" for f :: "string \<Rightarrow> cel_val" and xs
    using finite_vimageI [of "set xs" f] that by (simp add: vimage_def)
  from this [of VString "v # members v"] this [of "\<lambda>s. VList [VString s]" "v # members v"]
  have "finite ({s. VString s \<in> set (v # members v)} \<union> {s. VList [VString s] \<in> set (v # members v)})"
    by (simp add: inj_def)
  then show ?thesis by (rule finite_subset [rotated]) (auto simp: strings_of_def)
qed

lemma comparison_pin:
  assumes laws: "cel_laws ev eq" and fn: "fn = Equals \<or> fn = In"
    and h: "holds_at ev (Call i fn None [a, b]) c r"
    and ab: "a = ref \<and> b = other \<or> a = other \<and> b = ref"
    and ref: "\<And>p. ev ref c r = Inr p \<Longrightarrow> p = VString s \<or> p = VList [VString s]"
  shows "\<exists>w p. ev other c r = Inr w \<and> ev ref c r = Inr p \<and> s \<in> strings_of w"
proof -
  have eq: "law_equality eq" using laws by (simp add: cel_laws_def)
  obtain u v where uv: "ev a c r = Inr u" "ev b c r = Inr v"
    "fn = Equals \<and> eq u v \<or> fn = In \<and> (\<exists>w\<in>set (members v). eq u w)"
    using comparison_values [OF laws fn h] by blast
  from ab show ?thesis
  proof
    assume o: "a = ref \<and> b = other"
    then have u: "u = VString s \<or> u = VList [VString s]" using ref uv by blast
    then have "eq u w \<Longrightarrow> w = u" for w using eq unfolding law_equality_def by blast
    with uv(3) u have "s \<in> strings_of v" by (auto simp: strings_of_def)
    with uv o show ?thesis by blast
  next
    assume o: "a = other \<and> b = ref"
    then have v: "v = VString s \<or> v = VList [VString s]" using ref uv by blast
    have "u = v \<or> u = VString s"
      using uv(3) v eq unfolding law_equality_def by (auto simp: members_def)
    with v have "s \<in> strings_of u" by (auto simp: strings_of_def)
    with uv o show ?thesis by blast
  qed
qed

lemma resource_value:
  "cel_laws ev eq \<Longrightarrow> isResourceRef e \<Longrightarrow> ev e c r = Inr p \<Longrightarrow> p = VString r \<or> p = VList [VString r]"
  by (auto simp: cel_laws_def law_request_def isResourceRef_def)

lemma claim_value:
  "cel_laws ev eq \<Longrightarrow> callerClaim e = Some k \<Longrightarrow> ev e c r = Inr p \<Longrightarrow>
    \<exists>s. gm_lookup c k = Some s \<and> p = VString s"
  by (auto simp: cel_laws_def law_claim_def)

lemma scope_request: "cel_laws ev eq \<Longrightarrow> \<not> references e VarRequest \<Longrightarrow> ev e c r = ev e c r'"
  by (simp add: cel_laws_def law_scope_def)

lemma scope_caller: "cel_laws ev eq \<Longrightarrow> \<not> references e VarCaller \<Longrightarrow> ev e c r = ev e c' r"
  by (simp add: cel_laws_def law_scope_def)

text \<open>All strings the operands of a condition pin something to: a finite set.\<close>

definition compared :: "cel_sem \<Rightarrow> expr \<Rightarrow> string gomap \<Rightarrow> string \<Rightarrow> string set" where
  "compared ev ast c r = (\<Union>d\<in>set (descendants ast). \<Union>a\<in>set (children d).
     (case ev a c r of Inl _ \<Rightarrow> {} | Inr w \<Rightarrow> strings_of w))"

lemma finite_compared: "finite (compared ev ast c r)"
  by (auto simp: compared_def finite_strings_of split: sum.splits)

lemma comparedI:
  "Call i fn None [a, b] \<in> set (descendants ast) \<Longrightarrow> x = a \<or> x = b \<Longrightarrow> ev x c r = Inr w \<Longrightarrow>
    s \<in> strings_of w \<Longrightarrow> s \<in> compared ev ast c r"
  unfolding compared_def by (rule UN_I, assumption, rule UN_I [of x]) auto

lemma resource_compared:
  assumes laws: "cel_laws ev eq" and "plain_operators ast"
    and "constrains_by boundsResource ast" and "holds_at ev ast c r"
  shows "r \<in> compared ev ast c r0"
proof -
  obtain i fn a b ref other where d: "Call i fn None [a, b] \<in> set (descendants ast)" "fn = Equals \<or> fn = In"
    "holds_at ev (Call i fn None [a, b]) c r" "a = ref \<and> b = other \<or> a = other \<and> b = ref"
    "boundsResource ref other"
    by (rule accepted_comparison [OF laws assms(2-4)])
  then have ref: "isResourceRef ref" "\<not> references other VarRequest" by (simp_all add: boundsResource_def)
  have "\<exists>w p. ev other c r = Inr w \<and> ev ref c r = Inr p \<and> r \<in> strings_of w"
    by (rule comparison_pin [OF laws d(2-4)]) (rule resource_value [OF laws ref(1)])
  then obtain w where "ev other c r = Inr w" "r \<in> strings_of w" by blast
  moreover have "ev other c r = ev other c r0" by (rule scope_request [OF laws ref(2)])
  ultimately show ?thesis using comparedI [OF d(1), of other] d(4) by auto
qed


section \<open>Caller-anchored resources\<close>

text \<open>A resource that belongs to the caller: its repository, a repository of its owner, its owner.\<close>

definition anchored :: "string gomap \<Rightarrow> string \<Rightarrow> bool" where
  "anchored c r \<longleftrightarrow>
     (\<exists>repo s. gm_lookup c ''repository'' = Some repo \<and> r = ''repo:'' @ repo @ s) \<or>
     (\<exists>owner s. gm_lookup c ''repository_owner'' = Some owner \<and> r = ''repo:'' @ owner @ ''/'' @ s) \<or>
     (\<exists>owner. gm_lookup c ''repository_owner'' = Some owner \<and> r = ''org:'' @ owner)"

lemma plus_operands_append: "plus_operands e (xs @ ys) = plus_operands e xs @ ys"
  by (induction e xs arbitrary: ys rule: plus_operands.induct) auto

lemma plus_operands_value:
  assumes laws: "cel_laws ev eq"
    and "ev e c r = Inr v" and "\<forall>op\<in>set (plus_operands e []). callerClaim op \<noteq> None \<or> stringLiteral op \<noteq> None"
  shows "\<exists>ss. list_all2 (\<lambda>op s. ev op c r = Inr (VString s)) (plus_operands e []) ss \<and> v = VString (concat ss)"
  using assms(2,3)
proof (induction e arbitrary: v rule: measure_induct_rule [of size])
  case (less e)
  show ?case
  proof (cases "\<exists>i t a b. e = Call i Add t [a, b]")
    case True
    then obtain i t a b where e: "e = Call i Add t [a, b]" by blast
    obtain u w where uw: "ev a c r = Inr u" "ev b c r = Inr w"
      "\<forall>x y. u = VString x \<longrightarrow> w = VString y \<longrightarrow> v = VString (x @ y)"
      using laws less.prems(1) unfolding cel_laws_def law_add_def e by blast
    have ops: "plus_operands e [] = plus_operands a [] @ [b]"
      using plus_operands_append [of a "[]" "[b]"] by (simp add: e)
    obtain ss where ss: "list_all2 (\<lambda>op s. ev op c r = Inr (VString s)) (plus_operands a []) ss"
      "u = VString (concat ss)"
      using less.IH [of a u] uw(1) less.prems(2) unfolding ops by (auto simp: e)
    have "callerClaim b \<noteq> None \<or> stringLiteral b \<noteq> None" using less.prems(2) unfolding ops by simp
    then obtain y where "w = VString y"
      using claim_value [OF laws _ uw(2)] laws uw(2)
      by (auto simp: stringLiteral_def cel_laws_def law_literal_def split: expr.splits cel_val.splits)
    with ss uw show ?thesis unfolding ops
      by (intro exI [of _ "ss @ [y]"]) (auto intro: list_all2_appendI)
  next
    case False
    then have ops: "plus_operands e [] = [e]"
      by (cases "(e, [] :: expr list)" rule: plus_operands.cases) auto
    with less.prems have "callerClaim e \<noteq> None \<or> stringLiteral e \<noteq> None" by simp
    then obtain y where "v = VString y"
      using claim_value [OF laws _ less.prems(1)] laws less.prems(1)
      by (auto simp: stringLiteral_def cel_laws_def law_literal_def split: expr.splits cel_val.splits)
    with less.prems(1) show ?thesis unfolding ops by (intro exI [of _ "[y]"]) simp
  qed
qed


lemma literal_at_value:
  assumes "cel_laws ev eq" and "list_all2 (\<lambda>op s. ev op c r = Inr (VString s)) ops ss"
    and "literal_at ops i = l" and "l \<noteq> ''''"
  shows "i < length ss \<and> ss ! i = l"
proof -
  have i: "i < length ops" and lit: "stringLiteral (ops ! i) = Some l"
    using assms(3,4) by (auto simp: literal_at_def split: if_splits option.splits)
  then have "ev (ops ! i) c r = Inr (VString l)"
    using assms(1) by (auto simp: stringLiteral_def cel_laws_def law_literal_def split: expr.splits cel_val.splits)
  moreover have "ev (ops ! i) c r = Inr (VString (ss ! i))" using list_all2_nthD [OF assms(2) i] by simp
  ultimately show ?thesis using i list_all2_lengthD [OF assms(2)] by simp
qed

lemma claim_at_value:
  assumes "cel_laws ev eq" and "list_all2 (\<lambda>op s. ev op c r = Inr (VString s)) ops ss"
    and "claim_at ops i = k" and "k \<noteq> ''''"
  shows "i < length ss \<and> gm_lookup c k = Some (ss ! i)"
proof -
  have i: "i < length ops" and k: "callerClaim (ops ! i) = Some k"
    using assms(3,4) by (auto simp: claim_at_def split: if_splits option.splits)
  with claim_value [OF assms(1) k list_all2_nthD [OF assms(2) i]] list_all2_lengthD [OF assms(2)]
  show ?thesis by simp
qed

lemma concat_first_two: "Suc 0 < length ss \<Longrightarrow> concat ss = ss ! 0 @ ss ! 1 @ concat (drop 2 ss)"
  by (cases ss; cases "tl ss") auto

lemma callerAnchored_value:
  assumes laws: "cel_laws ev eq" and anc: "callerAnchored e" and ev: "ev e c r = Inr v"
  shows "\<exists>s. v = VString s \<and> anchored c s"
proof -
  let ?ops = "plus_operands e []"
  have "\<forall>op\<in>set ?ops. callerClaim op \<noteq> None \<or> stringLiteral op \<noteq> None"
    using anc by (auto simp: callerAnchored_def Let_def list_ex_iff isStringLiteral_def split: if_splits)
  from plus_operands_value [OF laws ev this] obtain ss where
    ss: "list_all2 (\<lambda>op s. ev op c r = Inr (VString s)) ?ops ss" and v: "v = VString (concat ss)" by blast
  note lit = literal_at_value [OF laws ss] and claim = claim_at_value [OF laws ss]
  consider (repo) "literal_at ?ops 0 = ''repo:''" "claim_at ?ops 1 = ''repository''"
    | (owner) "literal_at ?ops 0 = ''repo:''" "claim_at ?ops 1 = ''repository_owner''"
        "has_prefix (literal_at ?ops 2) ''/''"
    | (org) "literal_at ?ops 0 = ''org:''" "claim_at ?ops 1 = ''repository_owner''" "length ?ops = 2"
    using anc by (auto simp: callerAnchored_def Let_def split: if_splits)
  then have "anchored c (concat ss)"
  proof cases
    case repo
    with lit [of 0] claim [of 1] have "gm_lookup c ''repository'' = Some (ss ! 1)"
      "concat ss = ''repo:'' @ ss ! 1 @ concat (drop 2 ss)" by (auto simp: concat_first_two)
    then show ?thesis unfolding anchored_def by blast
  next
    case owner
    then obtain l where l: "literal_at ?ops 2 = ''/'' @ l" by (auto simp: has_prefix_def prefix_def)
    with lit [of 2] have "2 < length ss" "ss ! 2 = ''/'' @ l" by auto
    then have "concat (drop 2 ss) = ''/'' @ l @ concat (drop 3 ss)"
      using Cons_nth_drop_Suc [of 2 ss] by (metis append.assoc concat.simps(2) eval_nat_numeral(3))
    with owner lit [of 0] claim [of 1] have "gm_lookup c ''repository_owner'' = Some (ss ! 1)"
      "concat ss = ''repo:'' @ ss ! 1 @ ''/'' @ l @ concat (drop 3 ss)" by (auto simp: concat_first_two)
    then show ?thesis unfolding anchored_def by blast
  next
    case org
    then have "length ss = 2" using list_all2_lengthD [OF ss] by simp
    with org lit [of 0] claim [of 1] have "gm_lookup c ''repository_owner'' = Some (ss ! 1)"
      "concat ss = ''org:'' @ ss ! 1" by (auto simp: concat_first_two)
    then show ?thesis unfolding anchored_def by blast
  qed
  with v show ?thesis by blast
qed

lemma anchored_members:
  assumes laws: "cel_laws ev eq" and es: "\<forall>e\<in>set es. callerAnchored e"
    and ev: "ev (ListLit i es) c r = Inr v" and s: "s \<in> strings_of v"
  shows "anchored c s"
proof -
  obtain vs where v: "v = VList vs" and vs: "list_all2 (\<lambda>e v. ev e c r = Inr v) es vs"
    using laws ev unfolding cel_laws_def law_list_def by blast
  have all: "\<exists>s. x = VString s \<and> anchored c s" if "x \<in> set vs" for x
  proof -
    from list_all2_in_right [OF vs that] obtain e where "e \<in> set es" "ev e c r = Inr x" by blast
    with es callerAnchored_value [OF laws] show ?thesis by blast
  qed
  from s v have "VString s \<in> set vs \<or> VList [VString s] \<in> set vs" by (auto simp: strings_of_def members_def)
  with all show ?thesis by blast
qed

text \<open>What an accepted comparison of \<open>boundsCaller\<close> pins: a claim, or the resource to the caller.\<close>

lemma caller_comparison:
  assumes laws: "cel_laws ev eq" and plain: "plain_operators ast"
    and con: "constrains_by (boundsCaller identity) ast" and h: "holds_at ev ast c r"
  shows "(\<exists>k\<in>set identity. \<exists>s. gm_lookup c k = Some s \<and> s \<in> compared ev ast gm_empty r) \<or> anchored c r"
proof -
  obtain i fn a b ref other where d: "Call i fn None [a, b] \<in> set (descendants ast)" "fn = Equals \<or> fn = In"
    "holds_at ev (Call i fn None [a, b]) c r" "a = ref \<and> b = other \<or> a = other \<and> b = ref"
    "boundsCaller identity ref other"
    by (rule accepted_comparison [OF laws plain con h])
  show ?thesis
  proof (cases "callerClaim ref")
    case (Some k)
    then have k: "k \<in> set identity" "\<not> references other VarCaller"
      using d(5) by (simp_all add: boundsCaller_def)
    obtain p where "ev ref c r = Inr p"
      using comparison_values [OF laws d(2,3)] d(4) by blast
    with claim_value [OF laws Some] obtain s where s: "gm_lookup c k = Some s" "ev ref c r = Inr (VString s)"
      by blast
    have "\<exists>w p. ev other c r = Inr w \<and> ev ref c r = Inr p \<and> s \<in> strings_of w"
      by (rule comparison_pin [OF laws d(2-4)]) (simp add: s)
    then obtain w where "ev other c r = Inr w" "s \<in> strings_of w" by blast
    moreover have "ev other c r = ev other gm_empty r" by (rule scope_caller [OF laws k(2)])
    ultimately have "s \<in> compared ev ast gm_empty r"
      using comparedI [OF d(1), of other ev gm_empty r w s] d(4) by auto
    with s k show ?thesis by blast
  next
    case None
    then have ref: "isResourceRef ref" using d(5) by (simp add: boundsCaller_def split: if_splits)
    have "\<exists>w p. ev other c r = Inr w \<and> ev ref c r = Inr p \<and> r \<in> strings_of w"
      by (rule comparison_pin [OF laws d(2-4)]) (rule resource_value [OF laws ref])
    then obtain w where w: "ev other c r = Inr w" "r \<in> strings_of w" by blast
    show ?thesis
    proof (cases "\<exists>j es. other = ListLit j es")
      case True
      with w d(5) None anchored_members [OF laws _ _ w(2)] show ?thesis
        by (auto simp: boundsCaller_def list_ex_iff split: if_splits)
    next
      case False
      then have "callerAnchored other"
        using d(5) None by (auto simp: boundsCaller_def split: if_splits expr.splits)
      from callerAnchored_value [OF laws this w(1)] w(2) show ?thesis
        by (auto simp: strings_of_def members_def)
    qed
  qed
qed


section \<open>Conditions of other issuers\<close>

definition string_literals :: "expr \<Rightarrow> string set" where
  "string_literals ast = {s. \<exists>d\<in>set (descendants ast). stringLiteral d = Some s}"

lemma finite_string_literals: "finite (string_literals ast)"
proof -
  have "string_literals ast \<subseteq> the ` stringLiteral ` set (descendants ast)"
    by (force simp: string_literals_def image_iff)
  then show ?thesis by (rule finite_subset) simp
qed

lemma comparedToLiteral_other:
  assumes lit: "comparedToLiteral (x, ref # Call i fn None [a, b] # ps)"
    and ids: "expr_id a \<noteq> expr_id b" and ab: "a = ref \<and> b = other \<or> a = other \<and> b = ref"
  shows "isStringLiteral other \<or> (\<exists>j es. other = ListLit j es \<and> (\<forall>e\<in>set es. isStringLiteral e))"
  using assms
  by (auto simp: comparedToLiteral_def nav_parent_def Let_def list_ex_iff split: if_splits expr.splits)

lemma string_literal_value:
  assumes "cel_laws ev eq" and "isStringLiteral e" and "ev e c r = Inr w"
  shows "\<exists>s. stringLiteral e = Some s \<and> w = VString s"
  using assms by (auto simp: isStringLiteral_def stringLiteral_def cel_laws_def law_literal_def
      split: expr.splits cel_val.splits)

lemma literal_operand:
  assumes laws: "cel_laws ev eq"
    and lit: "isStringLiteral other \<or> (\<exists>j es. other = ListLit j es \<and> (\<forall>e\<in>set es. isStringLiteral e))"
    and w: "ev other c r = Inr w" "s \<in> strings_of w"
  shows "\<exists>d\<in>set (descendants other). stringLiteral d = Some s"
  using lit
proof
  assume "isStringLiteral other"
  from string_literal_value [OF laws this w(1)] w(2) show ?thesis
    by (auto simp: strings_of_def members_def intro: bexI [of _ other])
next
  assume "\<exists>j es. other = ListLit j es \<and> (\<forall>e\<in>set es. isStringLiteral e)"
  then obtain j es where o: "other = ListLit j es" and es: "\<forall>e\<in>set es. isStringLiteral e" by blast
  obtain vs where v: "w = VList vs" and vs: "list_all2 (\<lambda>e v. ev e c r = Inr v) es vs"
    using laws w(1) unfolding cel_laws_def law_list_def o by blast
  have all: "\<exists>d\<in>set es. \<exists>t. x = VString t \<and> stringLiteral d = Some t" if "x \<in> set vs" for x
  proof -
    from list_all2_in_right [OF vs that] obtain e where "e \<in> set es" "ev e c r = Inr x" by blast
    with es string_literal_value [OF laws] show ?thesis by blast
  qed
  from w(2) v have "VString s \<in> set vs \<or> VList [VString s] \<in> set vs"
    by (auto simp: strings_of_def members_def)
  with all obtain d where "d \<in> set es" "stringLiteral d = Some s" by blast
  then show ?thesis using child_in_descendants [of d other] by (auto simp: o)
qed

lemma nonpreset_comparison:
  assumes laws: "cel_laws ev eq" and parsed: "parsed ast" and chk: "checkCondition ast iss = Inr u"
    and np: "\<not> IsPreset iss" and h: "holds_at ev ast c r"
  shows "r \<in> string_literals ast"
proof -
  have plain: "plain_operators ast" using parsed by (simp add: parsed_def)
  obtain i fn a b ref other where d: "Call i fn None [a, b] \<in> set (descendants ast)" "fn = Equals \<or> fn = In"
    "holds_at ev (Call i fn None [a, b]) c r" "a = ref \<and> b = other \<or> a = other \<and> b = ref"
    "boundsResource ref other"
    by (rule accepted_comparison [OF laws plain checkCondition_resource [OF chk] h])
  let ?cmp = "Call i fn None [a, b]"
  have ref: "isResourceRef ref" using d(5) by (simp add: boundsResource_def)
  obtain ps where ps: "(?cmp, ps) \<in> set (nav_descendants (ast, []))"
    using nav_descendants_ex [of ?cmp "(ast, [])"] d(1) by auto
  have "ref \<in> set (children ?cmp)" using d(4) by auto
  from nonpreset_literal [OF chk np ps this ref] obtain x where
    lit: "comparedToLiteral (x, ref # ?cmp # ps)" by blast
  have "distinct (map expr_id (children ?cmp))" using parsed d(1) unfolding parsed_def by blast
  then have ids: "expr_id a \<noteq> expr_id b" by simp
  have "\<exists>w p. ev other c r = Inr w \<and> ev ref c r = Inr p \<and> r \<in> strings_of w"
    by (rule comparison_pin [OF laws d(2-4)]) (rule resource_value [OF laws ref])
  then obtain w where w: "ev other c r = Inr w" "r \<in> strings_of w" by blast
  from literal_operand [OF laws comparedToLiteral_other [OF lit ids d(4)] w]
  obtain t where t: "t \<in> set (descendants other)" "stringLiteral t = Some r" by blast
  have "other \<in> set (descendants ?cmp)" using d(4) by (intro child_in_descendants) auto
  then have "t \<in> set (descendants ast)" using t(1) d(1) descendants_trans by blast
  with t(2) show ?thesis by (auto simp: string_literals_def)
qed


section \<open>A function that satisfies the laws\<close>

text \<open>
  The fragment of CEL the checks look at, as a total function; everything else is an error. It
  shows that the laws can hold, and the witnesses evaluate it.
\<close>

definition plus_val :: "cel_val \<Rightarrow> cel_val \<Rightarrow> string + cel_val" where
  "plus_val u v = (case (u, v) of
     (VString s, VString t) \<Rightarrow> Inr (VString (s @ t)) | _ \<Rightarrow> Inl ''no such overload'')"

definition mini_call ::
  "string \<Rightarrow> expr \<Rightarrow> expr \<Rightarrow> string + cel_val \<Rightarrow> string + cel_val \<Rightarrow> string gomap \<Rightarrow> string + cel_val" where
  "mini_call fn a b ra rb c =
     (if fn = LogicalOr then
        (if ra = Inr (VBool True) \<or> rb = Inr (VBool True) then Inr (VBool True)
         else if ra = Inr (VBool False) \<and> rb = Inr (VBool False) then Inr (VBool False)
         else Inl ''no such overload'')
      else if fn = LogicalAnd then
        (if ra = Inr (VBool True) \<and> rb = Inr (VBool True) then Inr (VBool True)
         else if ra = Inr (VBool False) \<or> rb = Inr (VBool False) then Inr (VBool False)
         else Inl ''no such overload'')
      else if fn = Equals then bind_r ra (\<lambda>u. bind_r rb (\<lambda>v. Inr (VBool (u = v))))
      else if fn = In then bind_r ra (\<lambda>u. bind_r rb (\<lambda>v. Inr (VBool (u \<in> set (members v)))))
      else if fn = Add then bind_r ra (\<lambda>u. bind_r rb (\<lambda>v. plus_val u v))
      else if fn = Index \<and> isIdent a VarCaller then
        (case stringLiteral b of
           None \<Rightarrow> Inl ''unsupported''
         | Some k \<Rightarrow> (case gm_lookup c k of None \<Rightarrow> Inl ''no such key'' | Some s \<Rightarrow> Inr (VString s)))
      else Inl ''unsupported'')"

fun mini_eval :: cel_sem where
  "mini_eval (Literal i v) c r = Inr v"
| "mini_eval (Select i e f test) c r =
     (if test then Inl ''unsupported''
      else if isIdent e VarRequest then
        (if f = ''resource'' then Inr (VString r)
         else if f = ''resources'' then Inr (VList [VString r]) else Inl ''no such field'')
      else if isIdent e VarCaller then
        (case gm_lookup c f of None \<Rightarrow> Inl ''no such key'' | Some s \<Rightarrow> Inr (VString s))
      else Inl ''unsupported'')"
| "mini_eval (ListLit i es) c r =
     bind_r (map_r (\<lambda>x. x) (map (\<lambda>e. mini_eval e c r) es)) (\<lambda>vs. Inr (VList vs))"
| "mini_eval (Call i fn t args) c r =
     (case args of [a, b] \<Rightarrow> mini_call fn a b (mini_eval a c r) (mini_eval b c r) c
      | _ \<Rightarrow> Inl ''unsupported'')"
| "mini_eval e c r = Inl ''unsupported''"

lemma vars_distinct [simp]: "VarCaller \<noteq> VarRequest" "VarRequest \<noteq> VarCaller"
  by (simp_all add: VarCaller_def VarRequest_def)

lemma isIdent_both: "isIdent e VarRequest \<Longrightarrow> \<not> isIdent e VarCaller"
  by (auto simp: isIdent_def split: expr.splits)

lemma isIdent_references: "isIdent e n \<Longrightarrow> references e n"
  by (auto simp: references_iff intro: bexI [of _ e])

lemma mini_list: "mini_eval (ListLit i es) c r = Inr v \<Longrightarrow>
    \<exists>vs. v = VList vs \<and> list_all2 (\<lambda>e v. mini_eval e c r = Inr v) es vs"
  by (auto simp: result_iff list_all2_map1)

lemma mini_Call: "mini_eval (Call i fn t args) c r =
    (if length args = 2 then mini_call fn (args ! 0) (args ! 1) (mini_eval (args ! 0) c r) (mini_eval (args ! 1) c r) c
     else Inl ''unsupported'')"
  by (auto split: list.split simp: length_2_conv)

lemma mini_call_caller: "\<not> isIdent a VarCaller \<Longrightarrow> mini_call fn a b ra rb c = mini_call fn a b ra rb c'"
  by (simp add: mini_call_def)

lemma mini_scope:
  "(\<not> references e VarRequest \<longrightarrow> mini_eval e c r = mini_eval e c r') \<and>
   (\<not> references e VarCaller \<longrightarrow> mini_eval e c r = mini_eval e c' r)"
proof (induction e rule: measure_induct_rule [of size])
  case (less e)
  have sub: "(\<not> references e VarRequest \<longrightarrow> mini_eval a c r = mini_eval a c r') \<and>
    (\<not> references e VarCaller \<longrightarrow> mini_eval a c r = mini_eval a c' r)" if "a \<in> set (children e)" for a
    using less [OF size_children [OF that]] references_child [OF that] by blast
  have id: "isIdent a n \<Longrightarrow> references e n" if "a \<in> set (children e)" for a n
    using references_child [OF that isIdent_references] .
  show ?case
  proof (cases e)
    case (Select i s f test)
    with id [of s] show ?thesis by auto
  next
    case (ListLit i es)
    with sub have "\<not> references e VarRequest \<Longrightarrow> map (\<lambda>e. mini_eval e c r) es = map (\<lambda>e. mini_eval e c r') es"
      and "\<not> references e VarCaller \<Longrightarrow> map (\<lambda>e. mini_eval e c r) es = map (\<lambda>e. mini_eval e c' r) es"
      by auto
    then show ?thesis using ListLit by (metis mini_eval.simps(3))
  next
    case (Call i fn t args)
    have "args ! 0 \<in> set (children e)" "args ! 1 \<in> set (children e)" if "length args = 2"
      using that Call by (auto intro: nth_mem)
    with sub [of "args ! 0"] sub [of "args ! 1"] id [of "args ! 0" VarCaller] show ?thesis
      unfolding Call mini_Call by (auto intro: mini_call_caller)
  qed auto
qed


lemma mini_laws: "cel_laws mini_eval (=)"
  unfolding cel_laws_def
proof (intro conjI)
  show "law_or mini_eval" "law_and mini_eval"
    by (auto simp: law_or_def law_and_def mini_Call mini_call_def length_2_conv split: if_splits
        simp del: mini_eval.simps)
  show "law_equality (=)" by (auto simp: law_equality_def)
  show "law_equals mini_eval (=)" "law_in mini_eval (=)"
    by (auto simp: law_equals_def law_in_def mini_call_def result_iff)
  show "law_list mini_eval" unfolding law_list_def using mini_list by blast
  show "law_literal mini_eval" by (simp add: law_literal_def)
  show "law_request mini_eval"
    by (auto simp: law_request_def isRequestField_def is_test_only_def split: expr.splits if_splits)
  show "law_claim mini_eval"
    by (auto simp: law_claim_def callerClaim_def length_2_conv operator_defs mini_call_def dest: isIdent_both
        split: expr.splits if_splits option.splits)
  show "law_add mini_eval"
    by (auto simp: law_add_def result_iff mini_call_def operator_defs plus_val_def)
  show "law_scope mini_eval" unfolding law_scope_def using mini_scope by blast
qed

lemma sample_parsed: "parsed own_condition" "parsed ci_condition"
  by (simp_all add: parsed_def plain_operators_def own_condition_def ci_condition_def resource_read_def
      descendants.simps Add_def Equals_def)

lemma sample_plain: "plain_operators own_condition"
  using sample_parsed by (simp add: parsed_def)

section \<open>Properties of accepted conditions\<close>

text \<open>C14. A condition \<open>checkCondition\<close> accepts, for any issuer, holds for finitely many resources
  only, whatever the caller: no accepted policy applies to every requested resource.\<close>

theorem accepted_resources_finite:
  assumes "cel_laws ev eq" and "plain_operators ast" and "checkCondition ast iss = Inr u"
  shows "finite {r. holds_at ev ast c r}"
proof (rule finite_subset)
  show "{r. holds_at ev ast c r} \<subseteq> compared ev ast c ''''"
    using resource_compared [OF assms(1,2) checkCondition_resource [OF assms(3)]] by blast
qed (rule finite_compared)

theorem accepted_resources_finite_witness:
  "finite {r. holds_at mini_eval own_condition (gm_of [(''repository'', ''o/a'')]) r} \<and>
   holds_at mini_eval own_condition (gm_of [(''repository'', ''o/a'')]) ''repo:o/a''"
proof
  show "finite {r. holds_at mini_eval own_condition (gm_of [(''repository'', ''o/a'')]) r}"
    by (rule accepted_resources_finite [OF mini_laws sample_plain own_condition_accepted])
  show "holds_at mini_eval own_condition (gm_of [(''repository'', ''o/a'')]) ''repo:o/a''"
    by code_simp
qed

text \<open>C13. For an issuer without \<open>require\<close>, an accepted condition does not hold for callers the
  operator did not choose: for a given resource, either one of the caller's identity claims has one
  of finitely many values that do not depend on the caller, or the resource is anchored in the
  caller's own repository or owner claim.\<close>

theorem accepted_callers_pinned:
  assumes laws: "cel_laws ev eq" and plain: "plain_operators ast" and chk: "checkCondition ast iss = Inr u"
    and req: "gm_lookup (iss_require iss) = Map.empty"
  shows "\<exists>F. finite F \<and> (\<forall>c. holds_at ev ast c r \<longrightarrow>
      (\<exists>k\<in>set (identityClaims iss). \<exists>s\<in>F. gm_lookup c k = Some s) \<or> anchored c r)"
proof (intro exI conjI allI impI)
  show "finite (compared ev ast gm_empty r)" by (rule finite_compared)
  fix c
  assume "holds_at ev ast c r"
  from caller_comparison [OF laws plain checkCondition_caller [OF chk req] this]
  show "(\<exists>k\<in>set (identityClaims iss). \<exists>s\<in>compared ev ast gm_empty r. gm_lookup c k = Some s) \<or> anchored c r"
    by blast
qed

theorem accepted_callers_pinned_witness:
  "\<exists>F. finite F \<and> (\<forall>c. holds_at mini_eval own_condition c ''repo:o/a'' \<longrightarrow>
      (\<exists>k\<in>set (identityClaims (default_issuer sample_issuer)). \<exists>s\<in>F. gm_lookup c k = Some s) \<or>
      anchored c ''repo:o/a'')"
proof (rule accepted_callers_pinned [OF mini_laws sample_plain own_condition_accepted])
  show "gm_lookup (iss_require (default_issuer sample_issuer)) = Map.empty"
    by (simp add: default_issuer_def sample_issuer_def Let_def fun_eq_iff)
qed

text \<open>An anchored string that is the canonical form of a resource is one of the caller's owner.\<close>

lemma anchored_owner:
  assumes anc: "anchored c (res_raw x)" and wf: "wf_resource x"
    and repo: "gm_lookup c ''repository'' = Some (owner @ ''/'' @ name)" and sep: "CHR ''/'' \<notin> set owner"
    and own: "gm_lookup c ''repository_owner'' = Some owner"
  shows "res_owner x = owner \<and> res_kind x \<noteq> KindEnterprise"
proof -
  have split: "u = owner" if "u @ CHR ''/'' # v = owner @ CHR ''/'' # w" "CHR ''/'' \<notin> set u" for u v w
    using that sep by (metis cut_at_append option.inject prod.inject)
  from wf consider (repo) u v where "login u" "repo_name v" "x = repo_resource u v"
    | (org) u where "login u" "x = org_resource u"
    | (ent) u where "slug u" "x = enterprise_resource u" unfolding wf_resource_iff by blast
  then show ?thesis
  proof cases
    case (repo u v)
    then have "\<exists>w. u @ CHR ''/'' # v = owner @ CHR ''/'' # w"
      using anc assms(3,5) by (auto simp: anchored_def repo_resource_def)
    with split [of u v] login_no_sep [OF repo(1)] have "u = owner" by auto
    with repo show ?thesis by (simp add: repo_resource_def)
  next
    case (org u)
    with anc own show ?thesis by (auto simp: anchored_def org_resource_def)
  next
    case (ent u)
    with anc show ?thesis by (auto simp: anchored_def enterprise_resource_def)
  qed
qed

text \<open>C18. The owner of a caller-anchored resource is always the caller's own, as the comment of
  \<open>callerAnchored\<close> says. Take any expression that \<open>callerAnchored\<close> accepts and a caller whose
  \<open>repository\<close> claim is \<open>owner/name\<close> and whose \<open>repository_owner\<close> claim is \<open>owner\<close>. If the
  expression evaluates to the string of a resource that \<open>Parse\<close> accepts, then that resource is a
  repository or an organization of that very owner; no literal after the claim can extend the owner
  to another one or reach an enterprise.\<close>

theorem anchored_same_owner:
  assumes laws: "cel_laws ev eq" and anc: "callerAnchored e"
    and val: "ev e c r = Inr (VString (res_raw x))" and parse: "Parse requested = Inr x"
    and repo: "gm_lookup c ''repository'' = Some (owner @ ''/'' @ name)" and sep: "CHR ''/'' \<notin> set owner"
    and own: "gm_lookup c ''repository_owner'' = Some owner"
  shows "res_owner x = owner \<and> res_kind x \<noteq> KindEnterprise"
proof (rule anchored_owner [OF _ Parse_wf [OF parse] repo sep own])
  show "anchored c (res_raw x)" using callerAnchored_value [OF laws anc val] by simp
qed

text \<open>\<open>"repo:" + caller.repository_owner + "/tools"\<close>\<close>

definition tools_of_owner :: expr where
  "tools_of_owner = Call 1 Add None [Call 2 Add None [Literal 3 (VString ''repo:''),
     Select 4 (Ident 5 ''caller'') ''repository_owner'' False], Literal 6 (VString ''/tools'')]"

theorem anchored_same_owner_witness:
  "callerAnchored tools_of_owner \<and>
    (\<exists>x. Parse ''o/tools'' = Inr x \<and> res_raw x = ''repo:o/tools'' \<and>
      mini_eval tools_of_owner (gm_of [(''repository'', ''o/a''), (''repository_owner'', ''o'')]) '''' =
        Inr (VString (res_raw x)) \<and> res_owner x = ''o'')"
proof -
  let ?c = "gm_of [(''repository'', ''o/a''), (''repository_owner'', ''o'')]"
  have anc: "callerAnchored tools_of_owner" by code_simp
  have "case Parse ''o/tools'' of Inl e \<Rightarrow> False | Inr r \<Rightarrow> r = repo_resource ''o'' ''tools''" by code_simp
  then have parse: "Parse ''o/tools'' = Inr (repo_resource ''o'' ''tools'')" by (simp split: sum.splits)
  have raw: "res_raw (repo_resource ''o'' ''tools'') = ''repo:o/tools''" by code_simp
  have "mini_eval tools_of_owner ?c '''' = Inr (VString ''repo:o/tools'')" by code_simp
  then have val: "mini_eval tools_of_owner ?c '''' = Inr (VString (res_raw (repo_resource ''o'' ''tools'')))"
    by (simp only: raw)
  have "res_owner (repo_resource ''o'' ''tools'') = ''o''"
    using anchored_same_owner [OF mini_laws anc val parse, of "''o''" "''a''"] by (simp add: gm_lookup_of)
  with anc parse raw val show ?thesis by (intro conjI exI [of _ "repo_resource ''o'' ''tools''"])
qed

text \<open>For an issuer that is not a preset, an accepted condition holds only for resources that are
  written in it as string literals: neither a claim nor a computed string can name the resource.\<close>

theorem nonpreset_resource_is_literal:
  assumes "cel_laws ev eq" and "parsed ast" and "checkCondition ast iss = Inr u" and "\<not> IsPreset iss"
    and "holds_at ev ast c r"
  shows "r \<in> string_literals ast"
  by (rule nonpreset_comparison [OF assms])

theorem nonpreset_resource_is_literal_witness: "''repo:o/b'' \<in> string_literals ci_condition"
proof (rule nonpreset_resource_is_literal [OF mini_laws sample_parsed(2) ci_condition_accepted])
  show "\<not> IsPreset (default_issuer sample_plain_issuer)" by code_simp
  show "holds_at mini_eval ci_condition gm_empty ''repo:o/b''" by code_simp
qed


section \<open>Properties of decisions\<close>

text \<open>
  A CEL library that parses to trees with fresh node identifiers and whose programs compute the
  value of the tree they were made from, whenever they return a value (they may also stop with an
  error, for example at the cost limit).
\<close>

definition cel_library :: "'p cel_lib \<Rightarrow> 'p cel_eval \<Rightarrow> cel_sem \<Rightarrow> (cel_val \<Rightarrow> cel_val \<Rightarrow> bool) \<Rightarrow> bool" where
  "cel_library lib eval ev eq \<longleftrightarrow> cel_laws ev eq \<and>
     (\<forall>text ck. cel_compile lib text = Inr ck \<longrightarrow> parsed (ck_ast ck)) \<and>
     (\<forall>ck limit prg c r v. cel_program lib ck limit = Inr prg \<longrightarrow>
        eval prg c \<lparr>req_resource = r, req_resources = [r]\<rparr> = Inr v \<longrightarrow> ev (ck_ast ck) c r = Inr v)"

lemma matches_policy_value:
  "matches_policy eval c r p \<longleftrightarrow>
    eval (cp_condition p) c \<lparr>req_resource = r, req_resources = [r]\<rparr> = Inr (VBool True)"
  by (auto simp: matches_policy_def evalBool_def split: sum.splits cel_val.splits)

text \<open>An allowed resource satisfies an accepted condition of the caller's issuer.\<close>

lemma allowed_condition:
  assumes lib: "cel_library lib eval ev eq" and cfg: "config_ok url_parse cfg"
    and new: "New lib cfg = (Inr e, w)" and dec: "fst (Evaluate eval e inp required) = Inr d"
    and allowed: "d_allowed d" and r: "r \<in> set (req_resources (in_request inp))"
  obtains p iss ck where "p \<in> set (cfg_policies cfg)" "policy_issuer p = in_issuer inp"
    "iss \<in> set (oidc_issuers (cfg_oidc cfg))" "iss_name iss = in_issuer inp"
    "cel_compile lib (policy_condition p) = Inr ck" "checkCondition (ck_ast ck) iss = Inr ()"
    "parsed (ck_ast ck)" "holds_at ev (ck_ast ck) (in_caller inp) r"
proof -
  have d: "distinct (map iss_name (oidc_issuers (cfg_oidc cfg)))" using cfg by (simp add: config_ok_def)
  from allowed r obtain cp where cp: "cp \<in> set (policies_of e (in_issuer inp))"
    "matches_policy eval (in_caller inp) r cp"
    by (auto simp: allowed_iff [OF dec] resource_covered_def)
  from New_policy_source [OF new cp(1) d] obtain p iss ck where
    src: "p \<in> set (cfg_policies cfg)" "policy_issuer p = in_issuer inp"
    "iss \<in> set (oidc_issuers (cfg_oidc cfg))" "iss_name iss = in_issuer inp"
    "cel_compile lib (policy_condition p) = Inr ck" "checkCondition (ck_ast ck) iss = Inr ()"
    "cel_program lib ck (pol_cost_limit (cfg_policy cfg)) = Inr (cp_condition cp)" by metis
  moreover have "parsed (ck_ast ck)" using lib src(5) unfolding cel_library_def by blast
  moreover have "holds_at ev (ck_ast ck) (in_caller inp) r"
    using lib src(7) cp(2) unfolding cel_library_def matches_policy_value by blast
  ultimately show thesis using that by blast
qed

text \<open>The resources written in the conditions of the policies of an issuer.\<close>

definition listed_resources :: "'p cel_lib \<Rightarrow> Config \<Rightarrow> string \<Rightarrow> string set" where
  "listed_resources lib cfg issuer =
     (\<Union>p\<in>{p \<in> set (cfg_policies cfg). policy_issuer p = issuer}.
       case cel_compile lib (policy_condition p) of Inl _ \<Rightarrow> {} | Inr ck \<Rightarrow> string_literals (ck_ast ck))"

text \<open>C8. End to end: a broker started from a valid configuration never allows a caller of a non-preset
  issuer a resource that the operator has not written literally in a condition of one of that
  issuer's policies; there are finitely many such resources.\<close>

theorem nonpreset_allowed_is_listed:
  assumes lib: "cel_library lib eval ev eq" and cfg: "config_ok url_parse cfg"
    and new: "New lib cfg = (Inr e, w)" and dec: "fst (Evaluate eval e inp required) = Inr d"
    and allowed: "d_allowed d"
    and np: "\<forall>iss\<in>set (oidc_issuers (cfg_oidc cfg)). iss_name iss = in_issuer inp \<longrightarrow> \<not> IsPreset iss"
  shows "set (req_resources (in_request inp)) \<subseteq> listed_resources lib cfg (in_issuer inp) \<and>
    finite (listed_resources lib cfg (in_issuer inp))"
proof
  have laws: "cel_laws ev eq" using lib by (simp add: cel_library_def)
  show "set (req_resources (in_request inp)) \<subseteq> listed_resources lib cfg (in_issuer inp)"
  proof
    fix r
    assume "r \<in> set (req_resources (in_request inp))"
    from allowed_condition [OF lib cfg new dec allowed this] obtain p iss ck where
      s: "p \<in> set (cfg_policies cfg)" "policy_issuer p = in_issuer inp"
      "iss \<in> set (oidc_issuers (cfg_oidc cfg))" "iss_name iss = in_issuer inp"
      "cel_compile lib (policy_condition p) = Inr ck" "checkCondition (ck_ast ck) iss = Inr ()"
      "parsed (ck_ast ck)" "holds_at ev (ck_ast ck) (in_caller inp) r" by metis
    have "r \<in> string_literals (ck_ast ck)"
      by (rule nonpreset_comparison [OF laws s(7,6) _ s(8)]) (use np s(3,4) in blast)
    with s(1,2,5) show "r \<in> listed_resources lib cfg (in_issuer inp)"
      unfolding listed_resources_def by (intro UN_I [of p]) auto
  qed
  show "finite (listed_resources lib cfg (in_issuer inp))"
    by (auto simp: listed_resources_def finite_string_literals split: sum.splits)
qed

text \<open>C9. End to end: when the preset issuer has no \<open>require\<close>, an allowed request means, for every
  resource of it, that the caller carries an identity claim whose value an operator-written
  condition fixes, or that the resource is anchored in the caller's own repository or owner claim.\<close>

theorem preset_allowed_is_pinned:
  assumes lib: "cel_library lib eval ev eq" and cfg: "config_ok url_parse cfg"
    and new: "New lib cfg = (Inr e, w)" and dec: "fst (Evaluate eval e inp required) = Inr d"
    and allowed: "d_allowed d" and r: "r \<in> set (req_resources (in_request inp))"
    and noreq: "\<forall>iss\<in>set (oidc_issuers (cfg_oidc cfg)). iss_name iss = in_issuer inp \<longrightarrow>
      gm_lookup (iss_require iss) = Map.empty"
  shows "anchored (in_caller inp) r \<or>
    (\<exists>p\<in>set (cfg_policies cfg). \<exists>ck. policy_issuer p = in_issuer inp \<and>
      cel_compile lib (policy_condition p) = Inr ck \<and>
      (\<exists>k\<in>set GitHubIdentityClaims. \<exists>s\<in>compared ev (ck_ast ck) gm_empty r.
        gm_lookup (in_caller inp) k = Some s))"
proof -
  have laws: "cel_laws ev eq" using lib by (simp add: cel_library_def)
  from allowed_condition [OF lib cfg new dec allowed r] obtain p iss ck where
    s: "p \<in> set (cfg_policies cfg)" "policy_issuer p = in_issuer inp"
    "iss \<in> set (oidc_issuers (cfg_oidc cfg))" "iss_name iss = in_issuer inp"
    "cel_compile lib (policy_condition p) = Inr ck" "checkCondition (ck_ast ck) iss = Inr ()"
    "parsed (ck_ast ck)" "holds_at ev (ck_ast ck) (in_caller inp) r" by metis
  have req: "gm_lookup (iss_require iss) = Map.empty" using noreq s(3,4) by blast
  have "plain_operators (ck_ast ck)" using s(7) by (simp add: parsed_def)
  from caller_comparison [OF laws this checkCondition_caller [OF s(6) req] s(8)]
  show ?thesis using s(1,2,5) unfolding identityClaims_def by (auto split: if_splits)
qed

lemma sample_library: "cel_library sample_lib (\<lambda>ast c req. mini_eval ast c (req_resource req)) mini_eval (=)"
  unfolding cel_library_def
proof (intro conjI allI impI)
  show "cel_laws mini_eval (=)" by (rule mini_laws)
  show "parsed (ck_ast ck)" if "cel_compile sample_lib src = Inr ck" for src ck
    using that sample_parsed by (auto simp: sample_lib_def split: if_splits)
  show "mini_eval (ck_ast ck) c r = Inr v"
    if "cel_program sample_lib ck limit = Inr prg"
      "mini_eval prg c (req_resource \<lparr>req_resource = r, req_resources = [r]\<rparr>) = Inr v" for ck limit prg c r v
    using that by (simp add: sample_lib_def)
qed

lemma sample_allowed:
  "\<exists>e w d. New sample_lib sample_config = (Inr e, w) \<and>
    fst (Evaluate (\<lambda>ast c req. mini_eval ast c (req_resource req)) e
      \<lparr>in_issuer = i, in_caller = c, in_request = \<lparr>req_resource = '''', req_resources = [r]\<rparr>\<rparr> gm_empty) = Inr d \<and>
    d_allowed d"
  if "i = ''ci'' \<and> r = ''repo:o/a'' \<and> c = gm_empty \<or>
      i = ''github'' \<and> r = ''repo:o/a'' \<and> c = gm_of [(''repository'', ''o/a'')]"
  using that
proof
  assume "i = ''ci'' \<and> r = ''repo:o/a'' \<and> c = gm_empty"
  moreover have "(case New sample_lib sample_config of (Inr e, w) \<Rightarrow>
     (case fst (Evaluate (\<lambda>ast c req. mini_eval ast c (req_resource req)) e
      \<lparr>in_issuer = ''ci'', in_caller = gm_empty,
       in_request = \<lparr>req_resource = '''', req_resources = [''repo:o/a'']\<rparr>\<rparr> gm_empty) of
       Inr d \<Rightarrow> d_allowed d | _ \<Rightarrow> False) | _ \<Rightarrow> False)" by code_simp
  ultimately show ?thesis by (auto split: prod.splits sum.splits)
next
  assume "i = ''github'' \<and> r = ''repo:o/a'' \<and> c = gm_of [(''repository'', ''o/a'')]"
  moreover have "(case New sample_lib sample_config of (Inr e, w) \<Rightarrow>
     (case fst (Evaluate (\<lambda>ast c req. mini_eval ast c (req_resource req)) e
      \<lparr>in_issuer = ''github'', in_caller = gm_of [(''repository'', ''o/a'')],
       in_request = \<lparr>req_resource = '''', req_resources = [''repo:o/a'']\<rparr>\<rparr> gm_empty) of
       Inr d \<Rightarrow> d_allowed d | _ \<Rightarrow> False) | _ \<Rightarrow> False)" by code_simp
  ultimately show ?thesis by (auto split: prod.splits sum.splits)
qed

theorem nonpreset_allowed_is_listed_witness:
  "''repo:o/a'' \<in> listed_resources sample_lib sample_config ''ci''"
proof -
  let ?inp = "\<lparr>in_issuer = ''ci'', in_caller = gm_empty, in_request = \<lparr>req_resource = '''', req_resources = [''repo:o/a'']\<rparr>\<rparr>"
  obtain e w d where "New sample_lib sample_config = (Inr e, w)"
    "fst (Evaluate (\<lambda>ast c req. mini_eval ast c (req_resource req)) e ?inp gm_empty) = Inr d" "d_allowed d"
    using sample_allowed [of "''ci''" "''repo:o/a''" gm_empty] by auto
  note T = nonpreset_allowed_is_listed [OF sample_library sample_config_ok this]
  have "\<forall>iss\<in>set (oidc_issuers (cfg_oidc sample_config)). iss_name iss = ''ci'' \<longrightarrow> \<not> IsPreset iss"
    by code_simp
  with T show ?thesis by simp
qed

theorem preset_allowed_is_pinned_witness:
  "anchored (gm_of [(''repository'', ''o/a'')]) ''repo:o/a'' \<or>
    (\<exists>p\<in>set (cfg_policies sample_config). policy_issuer p = ''github'')"
proof -
  let ?inp = "\<lparr>in_issuer = ''github'', in_caller = gm_of [(''repository'', ''o/a'')],
    in_request = \<lparr>req_resource = '''', req_resources = [''repo:o/a'']\<rparr>\<rparr>"
  obtain e w d where "New sample_lib sample_config = (Inr e, w)"
    "fst (Evaluate (\<lambda>ast c req. mini_eval ast c (req_resource req)) e ?inp gm_empty) = Inr d" "d_allowed d"
    using sample_allowed [of "''github''" "''repo:o/a''" "gm_of [(''repository'', ''o/a'')]"] by auto
  note T = preset_allowed_is_pinned [OF sample_library sample_config_ok this, of "''repo:o/a''"]
  have "\<forall>iss\<in>set (oidc_issuers (cfg_oidc sample_config)). iss_name iss = ''github'' \<longrightarrow>
      gm_lookup (iss_require iss) = Map.empty"
    by (simp add: sample_config_def sample_raw_config_def applyDefaults_def default_issuer_def sample_issuer_def
        sample_plain_issuer_def Let_def fun_eq_iff IsPreset_def GitHubPreset_def)
  with T show ?thesis by auto
qed

end
