(* ===== verification/Auth.thy ===== *)
theory Auth
  imports Config Go_Time
begin

text \<open>
  The package \<open>internal/auth\<close>, file \<open>auth.go\<close>: the authenticator built from the configured
  issuers, the routing of a token by its unverified issuer, and the checks on the verified claims.

  The libraries that parse, decode and verify a token are the record \<open>oidc_lib\<close>, a parameter of
  every operation that uses them: \<open>jose.ParseSignedCompact\<close>, the JSON decoding of the unverified
  payload, \<open>IDTokenVerifier.Verify\<close> and \<open>IDToken.Claims\<close>; \<open>strconv.FormatFloat\<close> of a
  whole number (used for audit-only claims) is the parameter \<open>format_float\<close>. A decoded claim set is
  a map from claim names to JSON values; numbers are binary64 values \<open>(-1)^s * m * 2^e\<close>, which
  decoding never makes infinite or NaN.
\<close>

section \<open>Data\<close>

datatype float64 = Float (f64_neg: bool) (f64_mant: nat) (f64_exp: int)

datatype json =
    JNull
  | JBool bool
  | JNum float64
  | JStr string
  | JArr "json list"
  | JObj "(string \<times> json) list"

type_synonym claims = "json gomap"

definition f64_val :: "float64 \<Rightarrow> rat" where
  "f64_val v = (if f64_neg v then - 1 else 1) * of_nat (f64_mant v) *
     (if f64_exp v \<ge> 0 then 2 ^ nat (f64_exp v) else 1 / 2 ^ nat (- f64_exp v))"

record Identity =
  id_issuer :: string
  id_issuer_url :: string
  id_subject :: string
  id_token_id :: string
  id_issued_at :: time
  id_expiry :: time
  id_claims :: "string gomap"
  id_audit_claims :: "string gomap"

record 'k verifier =
  ver_issuer :: string
  ver_keys :: 'k
  ver_client_id :: string
  ver_algs :: "string list"
  ver_skip_expiry :: bool

record 'k issuer =
  is_cfg :: OIDCIssuer
  is_verifier :: "'k verifier"

record 'k Authenticator =
  au_issuers :: "'k issuer gomap"
  au_algs :: "string list"
  au_skew :: duration

record ('k, 't) oidc_lib =
  parse_signed :: "string list \<Rightarrow> string \<Rightarrow> string + string"
  decode_iss :: "string \<Rightarrow> string + string"
  verify_token :: "'k verifier \<Rightarrow> string \<Rightarrow> string + 't"
  token_claims :: "'t \<Rightarrow> string + claims"

datatype claim_error =
    IssMismatch
  | AudMismatch
  | AudNotExact
  | AudInvalid
  | BadNumericDate string
  | LifetimeExceeds int
  | TokenExpired
  | IssuedInFuture
  | NotYetValid
  | SubMissing
  | ClaimTooLong string
  | ClaimType string
  | RequiredClaim string

datatype auth_error =
    EmptyToken
  | TokenTooLong
  | ParseToken string
  | DecodePayload string
  | UnknownIssuer string
  | VerifyToken string string
  | DecodeClaims string string
  | BadClaims string claim_error

datatype 'e setup_error =
    NeedIssuer
  | NeedIssuerURL string
  | NeedAudience string
  | NeedAlgorithms string
  | NeedLifetime string
  | DuplicateURL string
  | KeySetFailed string 'e

definition maxTokenBytes :: nat where "maxTokenBytes = 16 * 2 ^ 10"
definition maxClaimBytes :: nat where "maxClaimBytes = 1 * 2 ^ 10"
definition maxUnixSeconds :: int where "maxUnixSeconds = 1 * 2 ^ 53"

section \<open>Building the authenticator\<close>

definition add_alg :: "string list \<Rightarrow> string \<Rightarrow> string list" where
  "add_alg algs alg = (if alg \<in> set algs then algs else algs @ [alg])"

definition new_issuer :: "OIDCIssuer \<Rightarrow> 'k \<Rightarrow> 'k issuer" where
  "new_issuer cfg ks = \<lparr>is_cfg = cfg,
     is_verifier = \<lparr>ver_issuer = iss_issuer cfg, ver_keys = ks, ver_client_id = iss_audience cfg,
       ver_algs = iss_algorithms cfg, ver_skip_expiry = True\<rparr>\<rparr>"

fun add_issuers ::
  "(OIDCIssuer \<Rightarrow> 'e + 'k) \<Rightarrow> 'k Authenticator \<Rightarrow> OIDCIssuer list \<Rightarrow> 'e setup_error + 'k Authenticator" where
  "add_issuers keySet a [] = Inr a"
| "add_issuers keySet a (cfg # cfgs) =
     (if iss_issuer cfg = '''' then Inl (NeedIssuerURL (iss_name cfg))
      else if iss_audience cfg = '''' then Inl (NeedAudience (iss_name cfg))
      else if length (iss_algorithms cfg) = 0 then Inl (NeedAlgorithms (iss_name cfg))
      else if iss_max_lifetime cfg \<le> 0 then Inl (NeedLifetime (iss_name cfg))
      else if gm_lookup (au_issuers a) (iss_issuer cfg) \<noteq> None then Inl (DuplicateURL (iss_issuer cfg))
      else bind_r (map_err (KeySetFailed (iss_name cfg)) (keySet cfg)) (\<lambda>ks.
        add_issuers keySet
          (a\<lparr>au_issuers := gm_put (iss_issuer cfg) (new_issuer cfg ks) (au_issuers a),
             au_algs := foldl add_alg (au_algs a) (iss_algorithms cfg)\<rparr>) cfgs))"

definition newAuthenticator ::
  "OIDCIssuer list \<Rightarrow> duration \<Rightarrow> (OIDCIssuer \<Rightarrow> 'e + 'k) \<Rightarrow> 'e setup_error + 'k Authenticator" where
  "newAuthenticator issuers skew keySet =
     (if length issuers = 0 then Inl NeedIssuer
      else add_issuers keySet \<lparr>au_issuers = gm_empty, au_algs = [], au_skew = skew\<rparr> issuers)"

section \<open>Claims\<close>

text \<open>The conversion \<open>int64(v)\<close> truncates; \<open>v\<close> is in range when it is reached.\<close>

definition numericDate :: "claims \<Rightarrow> string \<Rightarrow> claim_error + time" where
  "numericDate claims name =
     (case gm_lookup claims name of
        Some (JNum v) \<Rightarrow>
          if f64_val v < 0 \<or> f64_val v > of_int maxUnixSeconds then Inl (BadNumericDate name)
          else Inr (time_unix \<lfloor>f64_val v\<rfloor>)
      | _ \<Rightarrow> Inl (BadNumericDate name))"

text \<open>\<^const>\<open>None\<close> is the result \<open>("", false, nil)\<close> for an absent claim.\<close>

definition stringClaim :: "claims \<Rightarrow> string \<Rightarrow> claim_error + string option" where
  "stringClaim claims name =
     (case gm_lookup claims name of
        None \<Rightarrow> Inr None
      | Some (JStr v) \<Rightarrow> if length v > maxClaimBytes then Inl (ClaimTooLong name) else Inr (Some v)
      | Some (JBool v) \<Rightarrow> Inr (Some (if v then ''true'' else ''false''))
      | Some _ \<Rightarrow> Inl (ClaimType name))"

definition is_whole :: "float64 \<Rightarrow> bool" where
  "is_whole v = (of_int \<lfloor>f64_val v\<rfloor> = f64_val v)"

definition auditClaim :: "(float64 \<Rightarrow> string) \<Rightarrow> claims \<Rightarrow> string \<Rightarrow> string option" where
  "auditClaim format_float claims name =
     (let keep = (\<lambda>s. if length s \<le> maxClaimBytes then Some s else None) in
      case gm_lookup claims name of
        Some (JStr v) \<Rightarrow> keep v
      | Some (JNum v) \<Rightarrow> if \<not> is_whole v then None else keep (format_float v)
      | _ \<Rightarrow> None)"

definition check_audience :: "OIDCIssuer \<Rightarrow> claims \<Rightarrow> claim_error + unit" where
  "check_audience cfg claims =
     (case gm_lookup claims ''aud'' of
        Some (JStr aud) \<Rightarrow> if aud \<noteq> iss_audience cfg then Inl AudMismatch else Inr ()
      | Some (JArr aud) \<Rightarrow>
          if length aud \<noteq> 1 \<or> hd aud \<noteq> JStr (iss_audience cfg) then Inl AudNotExact else Inr ()
      | _ \<Rightarrow> Inl AudInvalid)"

definition check_nbf :: "time \<Rightarrow> duration \<Rightarrow> claims \<Rightarrow> claim_error + unit" where
  "check_nbf now skew claims =
     (if gm_lookup claims ''nbf'' \<noteq> None then
        bind_r (numericDate claims ''nbf'') (\<lambda>nbf.
          if now < time_add nbf (dur_neg skew) then Inl NotYetValid else Inr ())
      else Inr ())"

fun expose :: "claims \<Rightarrow> string gomap \<Rightarrow> string list \<Rightarrow> claim_error + string gomap" where
  "expose claims exposed [] = Inr exposed"
| "expose claims exposed (name # names) =
     bind_r (stringClaim claims name) (\<lambda>v.
       expose claims (case v of None \<Rightarrow> exposed | Some s \<Rightarrow> gm_put name s exposed) names)"

definition check_required :: "claims \<Rightarrow> string \<times> string list \<Rightarrow> claim_error + unit" where
  "check_required claims = (\<lambda>(name, allowed).
     bind_r (stringClaim claims name) (\<lambda>v.
       (case v of
          None \<Rightarrow> Inl (RequiredClaim name)
        | Some s \<Rightarrow> if s \<notin> set allowed then Inl (RequiredClaim name) else Inr ())))"

definition record_audit :: "(float64 \<Rightarrow> string) \<Rightarrow> claims \<Rightarrow> string list \<Rightarrow> string gomap" where
  "record_audit format_float claims names =
     fold (\<lambda>name recorded. case auditClaim format_float claims name of
         None \<Rightarrow> recorded | Some v \<Rightarrow> gm_put name v recorded) names gm_empty"

definition identity ::
  "(float64 \<Rightarrow> string) \<Rightarrow> duration \<Rightarrow> time \<Rightarrow> OIDCIssuer \<Rightarrow> claims \<Rightarrow> claim_error + Identity" where
  "identity format_float skew now cfg claims =
     (if gm_lookup claims ''iss'' \<noteq> Some (JStr (iss_issuer cfg)) then Inl IssMismatch
      else
        bind_r (check_audience cfg claims) (\<lambda>_.
        bind_r (numericDate claims ''exp'') (\<lambda>expiry.
        bind_r (numericDate claims ''iat'') (\<lambda>iat.
        (let lifetime = time_sub expiry iat in
         if lifetime < 0 \<or> lifetime > seconds (iss_max_lifetime cfg)
         then Inl (LifetimeExceeds (iss_max_lifetime cfg))
         else if now > time_add expiry skew then Inl TokenExpired
         else if now < time_add iat (dur_neg skew) then Inl IssuedInFuture
         else
           bind_r (check_nbf now skew claims) (\<lambda>_.
           bind_r (stringClaim claims ''sub'') (\<lambda>sub.
           if sub = None \<or> sub = Some '''' then Inl SubMissing
           else
             bind_r (stringClaim claims ''jti'') (\<lambda>jti.
             bind_r (expose claims gm_empty (iss_claims cfg)) (\<lambda>exposed.
             bind_r (each_r (check_required claims) (gm_entries (iss_require cfg))) (\<lambda>_.
             Inr \<lparr>id_issuer = iss_name cfg,
               id_issuer_url = iss_issuer cfg,
               id_subject = (case sub of None \<Rightarrow> '''' | Some s \<Rightarrow> s),
               id_token_id = (case jti of None \<Rightarrow> '''' | Some s \<Rightarrow> s),
               id_issued_at = iat,
               id_expiry = expiry,
               id_claims = exposed,
               id_audit_claims = record_audit format_float claims (iss_audit_claims cfg)\<rparr>))))))))))"

section \<open>Authenticating a token\<close>

definition Authenticate ::
  "('k, 't) oidc_lib \<Rightarrow> (float64 \<Rightarrow> string) \<Rightarrow> 'k Authenticator \<Rightarrow> time \<Rightarrow> string \<Rightarrow> auth_error + Identity" where
  "Authenticate lib format_float a now rawToken =
     (if rawToken = '''' then Inl EmptyToken
      else if length rawToken > maxTokenBytes then Inl TokenTooLong
      else
        bind_r (map_err ParseToken (parse_signed lib (au_algs a) rawToken)) (\<lambda>payload.
        bind_r (map_err DecodePayload (decode_iss lib payload)) (\<lambda>unverified.
        (case gm_lookup (au_issuers a) unverified of
           None \<Rightarrow> Inl (UnknownIssuer unverified)
         | Some iss \<Rightarrow>
             bind_r (map_err (VerifyToken (iss_name (is_cfg iss)))
               (verify_token lib (is_verifier iss) rawToken)) (\<lambda>idToken.
             bind_r (map_err (DecodeClaims (iss_name (is_cfg iss))) (token_claims lib idToken)) (\<lambda>claims.
             map_err (BadClaims (iss_name (is_cfg iss)))
               (identity format_float (au_skew a) now (is_cfg iss) claims)))))))"

section \<open>What is accepted\<close>

lemma check_audience_Inr_iff [result_iff]:
  "check_audience cfg claims = Inr u \<longleftrightarrow>
    gm_lookup claims ''aud'' = Some (JStr (iss_audience cfg)) \<or>
    gm_lookup claims ''aud'' = Some (JArr [JStr (iss_audience cfg)])"
proof -
  have "length aud = 1 \<and> hd aud = x \<longleftrightarrow> aud = [x]" for aud :: "json list" and x
    by (cases aud) auto
  then show ?thesis by (auto simp: check_audience_def split: option.splits json.splits)
qed

text \<open>The instant a numeric claim denotes, when it is one the broker accepts.\<close>

definition date_claim :: "claims \<Rightarrow> string \<Rightarrow> time \<Rightarrow> bool" where
  "date_claim claims name t \<longleftrightarrow>
     (\<exists>v. gm_lookup claims name = Some (JNum v) \<and> 0 \<le> f64_val v \<and> f64_val v \<le> 2 ^ 53 \<and>
       t = \<lfloor>f64_val v\<rfloor> * 1000000000)"

lemma numericDate_Inr_iff [result_iff]: "numericDate claims name = Inr t \<longleftrightarrow> date_claim claims name t"
  by (auto simp: numericDate_def date_claim_def time_unix_def Second_def maxUnixSeconds_def not_less
      split: option.splits json.splits)

text \<open>The text of a claim, and when the broker accepts it: absent, boolean, or at most 1 KiB.\<close>

definition text_of :: "claims \<Rightarrow> string \<Rightarrow> string option" where
  "text_of claims name =
     (case gm_lookup claims name of
        Some (JStr s) \<Rightarrow> Some s
      | Some (JBool b) \<Rightarrow> Some (if b then ''true'' else ''false'')
      | _ \<Rightarrow> None)"

definition text_ok :: "claims \<Rightarrow> string \<Rightarrow> bool" where
  "text_ok claims name \<longleftrightarrow>
     (case gm_lookup claims name of
        None \<Rightarrow> True
      | Some (JStr s) \<Rightarrow> length s \<le> 1024
      | Some (JBool b) \<Rightarrow> True
      | _ \<Rightarrow> False)"

lemma stringClaim_Inr_iff [result_iff]:
  "stringClaim claims name = Inr t \<longleftrightarrow> text_ok claims name \<and> t = text_of claims name"
  by (auto simp: stringClaim_def text_ok_def text_of_def maxClaimBytes_def
      split: option.splits json.splits)

lemma text_ok_length: "text_ok claims name \<Longrightarrow> text_of claims name = Some s \<Longrightarrow> length s \<le> 1024"
  by (auto simp: text_ok_def text_of_def split: option.splits json.splits if_splits)

definition exposed_map :: "claims \<Rightarrow> string list \<Rightarrow> string gomap \<Rightarrow> string gomap" where
  "exposed_map claims names m =
     fold (\<lambda>name m. case text_of claims name of None \<Rightarrow> m | Some s \<Rightarrow> gm_put name s m) names m"

lemma expose_Inr_iff [result_iff]:
  "expose claims m names = Inr m' \<longleftrightarrow>
    (\<forall>name\<in>set names. text_ok claims name) \<and> m' = exposed_map claims names m"
  by (induction names arbitrary: m)
    (auto simp: result_iff exposed_map_def split: option.splits)

lemma lookup_exposed_map:
  "gm_lookup (exposed_map claims names m) name =
    (if name \<in> set names \<and> text_of claims name \<noteq> None then text_of claims name else gm_lookup m name)"
  by (induction names arbitrary: m) (auto simp: exposed_map_def split: option.splits)

lemma check_required_Inr_iff [result_iff]:
  "check_required claims (name, allowed) = Inr u \<longleftrightarrow>
    text_ok claims name \<and> (\<exists>s. text_of claims name = Some s \<and> s \<in> set allowed)"
  by (auto simp: check_required_def result_iff split: option.splits)

lemma check_nbf_Inr_iff [result_iff]:
  "check_nbf now skew claims = Inr u \<longleftrightarrow>
    gm_lookup claims ''nbf'' = None \<or> (\<exists>nbf. date_claim claims ''nbf'' nbf \<and> \<not> now < time_add nbf (dur_neg skew))"
  by (auto simp: check_nbf_def result_iff date_claim_def)

lemma lookup_record_audit:
  "gm_lookup (record_audit ff claims names) name =
    (if name \<in> set names then auditClaim ff claims name else None)"
proof -
  have *: "gm_lookup (fold (\<lambda>name recorded. case auditClaim ff claims name of
         None \<Rightarrow> recorded | Some v \<Rightarrow> gm_put name v recorded) names m) name =
    (if name \<in> set names \<and> auditClaim ff claims name \<noteq> None then auditClaim ff claims name
     else gm_lookup m name)" for m
    by (induction names arbitrary: m) (auto split: option.splits)
  show ?thesis by (auto simp: record_audit_def *)
qed

text \<open>
  The specification of an accepted claim set of an issuer, at a time \<open>now\<close> and with the skew of
  the authenticator: issuer and audience are exactly the configured ones, the token's lifetime is
  within the bound, the clock is inside its window, and every required claim has an allowed value.
\<close>

definition required_ok :: "claims \<Rightarrow> string list gomap \<Rightarrow> bool" where
  "required_ok claims req \<longleftrightarrow>
     (\<forall>c allowed. gm_lookup req c = Some allowed \<longrightarrow>
        text_ok claims c \<and> (\<exists>s\<in>set allowed. text_of claims c = Some s))"

definition token_ok ::
  "duration \<Rightarrow> time \<Rightarrow> OIDCIssuer \<Rightarrow> claims \<Rightarrow> time \<Rightarrow> time \<Rightarrow> bool" where
  "token_ok skew now cfg claims iat expiry \<longleftrightarrow>
     gm_lookup claims ''iss'' = Some (JStr (iss_issuer cfg)) \<and>
     (gm_lookup claims ''aud'' = Some (JStr (iss_audience cfg)) \<or>
      gm_lookup claims ''aud'' = Some (JArr [JStr (iss_audience cfg)])) \<and>
     date_claim claims ''exp'' expiry \<and> date_claim claims ''iat'' iat \<and>
     \<not> (time_sub expiry iat < 0 \<or> time_sub expiry iat > seconds (iss_max_lifetime cfg)) \<and>
     now \<le> time_add expiry skew \<and> time_add iat (dur_neg skew) \<le> now \<and>
     (gm_lookup claims ''nbf'' = None \<or>
      (\<exists>nbf. date_claim claims ''nbf'' nbf \<and> time_add nbf (dur_neg skew) \<le> now)) \<and>
     text_ok claims ''sub'' \<and> text_of claims ''sub'' \<notin> {None, Some ''''} \<and>
     text_ok claims ''jti'' \<and>
     (\<forall>c\<in>set (iss_claims cfg). text_ok claims c) \<and>
     required_ok claims (iss_require cfg)"

definition identity_of :: "(float64 \<Rightarrow> string) \<Rightarrow> OIDCIssuer \<Rightarrow> claims \<Rightarrow> time \<Rightarrow> time \<Rightarrow> Identity" where
  "identity_of ff cfg claims iat expiry =
     \<lparr>id_issuer = iss_name cfg, id_issuer_url = iss_issuer cfg,
      id_subject = the (text_of claims ''sub''),
      id_token_id = (case text_of claims ''jti'' of None \<Rightarrow> '''' | Some s \<Rightarrow> s),
      id_issued_at = iat, id_expiry = expiry,
      id_claims = exposed_map claims (iss_claims cfg) gm_empty,
      id_audit_claims = record_audit ff claims (iss_audit_claims cfg)\<rparr>"

lemma each_required_iff [result_iff]:
  "each_r (check_required claims) (gm_entries req) = Inr u \<longleftrightarrow> required_ok claims req"
  by (simp add: each_r_Inr_iff required_ok_def gm_lookup_iff_entry Ball_def split_paired_All
      check_required_Inr_iff) blast

lemma identity_Inr_iff:
  "identity ff skew now cfg claims = Inr ident \<longleftrightarrow>
    (\<exists>iat expiry. token_ok skew now cfg claims iat expiry \<and> ident = identity_of ff cfg claims iat expiry)"
proof -
  have "(case text_of claims ''sub'' of None \<Rightarrow> '''' | Some s \<Rightarrow> s) = the (text_of claims ''sub'')"
    if "text_of claims ''sub'' \<noteq> None" using that by auto
  then show ?thesis
    unfolding identity_def token_ok_def identity_of_def Let_def
    by (auto simp: result_iff not_less simp del: each_r_Inr_iff)
qed

lemma Authenticate_Inr_iff:
  "Authenticate lib ff a now raw = Inr ident \<longleftrightarrow>
    raw \<noteq> '''' \<and> length raw \<le> maxTokenBytes \<and>
    (\<exists>payload unverified iss t claims iat expiry.
       parse_signed lib (au_algs a) raw = Inr payload \<and> decode_iss lib payload = Inr unverified \<and>
       gm_lookup (au_issuers a) unverified = Some iss \<and>
       verify_token lib (is_verifier iss) raw = Inr t \<and> token_claims lib t = Inr claims \<and>
       token_ok (au_skew a) now (is_cfg iss) claims iat expiry \<and>
       ident = identity_of ff (is_cfg iss) claims iat expiry)"
  unfolding Authenticate_def
  by (simp add: result_iff identity_Inr_iff not_less case_option_Inr_iff)

section \<open>The configured issuers\<close>

lemma set_add_algs: "set (foldl add_alg algs as) = set algs \<union> set as"
  by (induction as arbitrary: algs) (auto simp: add_alg_def)

text \<open>The issuers an authenticator routes to, and those it was built from.\<close>

definition built_from ::
  "(OIDCIssuer \<Rightarrow> 'e + 'k) \<Rightarrow> OIDCIssuer list \<Rightarrow> 'k issuer gomap \<Rightarrow> bool" where
  "built_from keySet cfgs m \<longleftrightarrow>
     (\<forall>url iss. gm_lookup m url = Some iss \<longleftrightarrow>
        (\<exists>cfg\<in>set cfgs. \<exists>ks. url = iss_issuer cfg \<and> keySet cfg = Inr ks \<and> iss = new_issuer cfg ks))"

lemma new_issuer_simps:
  "is_cfg (new_issuer cfg ks) = cfg"
  "is_verifier (new_issuer cfg ks) = \<lparr>ver_issuer = iss_issuer cfg, ver_keys = ks,
     ver_client_id = iss_audience cfg, ver_algs = iss_algorithms cfg, ver_skip_expiry = True\<rparr>"
  by (simp_all add: new_issuer_def)

lemma built_from_step:
  assumes "built_from keySet cfgs m" and "gm_lookup m (iss_issuer cfg) = None" and "keySet cfg = Inr ks"
  shows "built_from keySet (cfgs @ [cfg]) (gm_put (iss_issuer cfg) (new_issuer cfg ks) m)"
  using assms unfolding built_from_def by (auto split: if_splits) (metis option.distinct(1))+

lemma add_issuers_Inr:
  assumes "add_issuers keySet a cfgs = Inr a'" and "built_from keySet done (au_issuers a)"
  shows "built_from keySet (done @ cfgs) (au_issuers a') \<and> au_skew a' = au_skew a \<and>
    set (au_algs a') = set (au_algs a) \<union> (\<Union>cfg\<in>set cfgs. set (iss_algorithms cfg))"
  using assms
proof (induction keySet a cfgs arbitrary: "done" rule: add_issuers.induct)
  case (1 keySet a)
  then show ?case by simp
next
  case (2 keySet a cfg cfgs)
  from 2(2) obtain ks where ks: "keySet cfg = Inr ks" and new: "gm_lookup (au_issuers a) (iss_issuer cfg) = None"
    and rest: "add_issuers keySet (a\<lparr>au_issuers := gm_put (iss_issuer cfg) (new_issuer cfg ks) (au_issuers a),
       au_algs := foldl add_alg (au_algs a) (iss_algorithms cfg)\<rparr>) cfgs = Inr a'"
    by (auto simp: result_iff split: if_splits)
  have nolen: "length (iss_algorithms cfg) \<noteq> 0" "0 < iss_max_lifetime cfg" "iss_issuer cfg \<noteq> ''''"
    "iss_audience cfg \<noteq> ''''" using 2(2) by (auto split: if_splits)
  have "built_from keySet (done @ [cfg]) (gm_put (iss_issuer cfg) (new_issuer cfg ks) (au_issuers a))"
    by (rule built_from_step [OF 2(3) new ks])
  with 2(1) [OF _ _ _ _ _ rest, of "done @ [cfg]"] nolen new show ?case
    by (auto simp: set_add_algs)
qed

lemma newAuthenticator_Inr:
  assumes "newAuthenticator cfgs skew keySet = Inr a"
  shows "built_from keySet cfgs (au_issuers a)" "au_skew a = skew"
    "set (au_algs a) = (\<Union>cfg\<in>set cfgs. set (iss_algorithms cfg))"
proof -
  have add: "add_issuers keySet \<lparr>au_issuers = gm_empty, au_algs = [], au_skew = skew\<rparr> cfgs = Inr a"
    using assms by (simp add: newAuthenticator_def split: if_splits)
  have "built_from keySet [] gm_empty" by (simp add: built_from_def)
  with add_issuers_Inr [OF add, of "[]"]
  show "built_from keySet cfgs (au_issuers a)" "au_skew a = skew"
    "set (au_algs a) = (\<Union>cfg\<in>set cfgs. set (iss_algorithms cfg))" by auto
qed


lemma Authenticate_issuer:
  assumes "newAuthenticator cfgs skew keySet = Inr a" and "Authenticate lib ff a now raw = Inr ident"
  obtains cfg claims iat expiry where "cfg \<in> set cfgs" "token_ok skew now cfg claims iat expiry"
    "ident = identity_of ff cfg claims iat expiry"
proof -
  from assms(2) obtain unverified iss claims iat expiry where
    iss: "gm_lookup (au_issuers a) unverified = Some iss" and
    ok: "token_ok (au_skew a) now (is_cfg iss) claims iat expiry" "ident = identity_of ff (is_cfg iss) claims iat expiry"
    unfolding Authenticate_Inr_iff by blast
  from iss newAuthenticator_Inr(1) [OF assms(1)] have "is_cfg iss \<in> set cfgs"
    by (auto simp: built_from_def new_issuer_def)
  with ok newAuthenticator_Inr(2) [OF assms(1)] that show thesis by simp
qed

lemma id_claims_identity_of:
  "gm_lookup (id_claims (identity_of ff cfg claims iat expiry)) c =
    (if c \<in> set (iss_claims cfg) then text_of claims c else None)"
  by (simp add: identity_of_def lookup_exposed_map)

lemma id_audit_identity_of:
  "gm_lookup (id_audit_claims (identity_of ff cfg claims iat expiry)) c =
    (if c \<in> set (iss_audit_claims cfg) then auditClaim ff claims c else None)"
  by (simp add: identity_of_def lookup_record_audit)

lemma identity_of_simps [simp]:
  "id_issuer (identity_of ff cfg claims iat expiry) = iss_name cfg"
  "id_issuer_url (identity_of ff cfg claims iat expiry) = iss_issuer cfg"
  "id_subject (identity_of ff cfg claims iat expiry) = the (text_of claims ''sub'')"
  "id_issued_at (identity_of ff cfg claims iat expiry) = iat"
  "id_expiry (identity_of ff cfg claims iat expiry) = expiry"
  by (simp_all add: identity_of_def)

lemma auditClaim_length: "auditClaim ff claims c = Some s \<Longrightarrow> length s \<le> 1024"
  by (auto simp: auditClaim_def Let_def maxClaimBytes_def split: option.splits json.splits if_splits)

text \<open>Within the limits of a valid configuration no duration overflows.\<close>

lemma token_ok_window:
  assumes ok: "token_ok (seconds skew) now cfg claims iat expiry"
    and skew: "0 \<le> skew" "skew \<le> 300" and life: "1 \<le> iss_max_lifetime cfg" "iss_max_lifetime cfg \<le> 86400"
  shows "0 \<le> iat \<and> iat \<le> expiry \<and> expiry - iat \<le> iss_max_lifetime cfg * Second \<and>
    iat - skew * Second \<le> now \<and> now \<le> expiry + skew * Second"
proof -
  have skew_s: "seconds skew = skew * Second" and life_s: "seconds (iss_max_lifetime cfg) = iss_max_lifetime cfg * Second"
    using skew life by (simp_all add: seconds_exact)
  have neg: "dur_neg (seconds skew) = - (skew * Second)"
    using skew by (simp add: skew_s Second_def dur_neg_exact)
  have "time_sub expiry iat < 0 \<or> time_sub expiry iat > iss_max_lifetime cfg * Second \<longleftrightarrow>
      \<not> (0 \<le> expiry - iat \<and> expiry - iat \<le> iss_max_lifetime cfg * Second)"
    using life by (intro time_sub_bounded_iff) (simp_all add: Second_def maxDuration_def)
  moreover have "0 \<le> iat" using ok by (auto simp: token_ok_def date_claim_def)
  ultimately show ?thesis
    using ok unfolding token_ok_def life_s neg unfolding skew_s time_add_def by auto
qed

section \<open>The interface the token endpoint relies on\<close>

text \<open>
  What the endpoint needs of its \<open>Authenticator\<close>: no token, no identity; an identity names one of
  the known issuers, and none of its claims exceeds the size limit.
\<close>

locale authenticator =
  fixes authenticate :: "time \<Rightarrow> string \<Rightarrow> auth_error + Identity" and names :: "string set"
  assumes rejects_empty: "authenticate now '''' \<noteq> Inr ident"
    and known_issuer: "authenticate now tok = Inr ident \<Longrightarrow> id_issuer ident \<in> names"
    and bounded_claims: "authenticate now tok = Inr ident \<Longrightarrow> gm_lookup (id_claims ident) c = Some v \<Longrightarrow> length v \<le> 1024"
begin

text \<open>Where no issuer is known, nothing is authenticated.\<close>

lemma none_known: "names = {} \<Longrightarrow> \<exists>e. authenticate now tok = Inl e"
  using known_issuer [of now tok] by (cases "authenticate now tok") auto

end

definition issuer_names :: "'k Authenticator \<Rightarrow> string set" where
  "issuer_names a = (\<lambda>iss. iss_name (is_cfg iss)) ` ran (gm_lookup (au_issuers a))"

interpretation oidc: authenticator "Authenticate lib ff a" "issuer_names a" for lib ff a
proof
  fix now tok ident c v
  show "Authenticate lib ff a now '''' \<noteq> Inr ident" by (simp add: Authenticate_def)
  assume auth: "Authenticate lib ff a now tok = Inr ident"
  then obtain unverified iss claims iat expiry where
    iss: "gm_lookup (au_issuers a) unverified = Some iss" and
    ok: "token_ok (au_skew a) now (is_cfg iss) claims iat expiry" "ident = identity_of ff (is_cfg iss) claims iat expiry"
    unfolding Authenticate_Inr_iff by blast
  then show "id_issuer ident \<in> issuer_names a" by (auto simp: issuer_names_def ran_def)
  assume "gm_lookup (id_claims ident) c = Some v"
  with ok show "length v \<le> 1024"
    by (auto simp: id_claims_identity_of token_ok_def split: if_splits dest: text_ok_length)
qed

lemma issuer_names_new:
  assumes "newAuthenticator cfgs skew keySet = Inr a"
  shows "issuer_names a \<subseteq> iss_name ` set cfgs"
  using newAuthenticator_Inr(1) [OF assms]
  by (auto simp: issuer_names_def ran_def built_from_def new_issuer_def)


section \<open>Properties of authentication\<close>

text \<open>
  For the witnesses: a token is its own payload, every signature verifies, and the claims are those
  of the non-preset issuer of \<open>sample_config\<close>, issued at 500 s and expiring at 1000 s.
\<close>

definition sample_claims :: claims where
  "sample_claims = gm_of [(''iss'', JStr ''https://idp.example/ci''), (''aud'', JStr ''broker''),
     (''iat'', JNum (Float False 500 0)), (''exp'', JNum (Float False 125 3)),
     (''sub'', JStr ''job''), (''project'', JStr ''p1'')]"

definition sample_oidc :: "(unit, unit) oidc_lib" where
  "sample_oidc = \<lparr>parse_signed = (\<lambda>algs raw. Inr raw), decode_iss = (\<lambda>payload. Inr ''https://idp.example/ci''),
     verify_token = (\<lambda>ver raw. Inr ()), token_claims = (\<lambda>t. Inr sample_claims)\<rparr>"

definition sample_authenticator :: "string setup_error + unit Authenticator" where
  "sample_authenticator = newAuthenticator (oidc_issuers (cfg_oidc sample_config))
     (seconds (oidc_skew (cfg_oidc sample_config))) (\<lambda>cfg. Inr ())"

definition sample_identity :: Identity where
  "sample_identity = \<lparr>id_issuer = ''ci'', id_issuer_url = ''https://idp.example/ci'', id_subject = ''job'',
     id_token_id = '''', id_issued_at = time_unix 500, id_expiry = time_unix 1000,
     id_claims = gm_of [(''project'', ''p1'')], id_audit_claims = gm_empty\<rparr>"

lemma sample_authenticated:
  "\<exists>a. sample_authenticator = Inr a \<and>
    Authenticate sample_oidc (\<lambda>v. ''0'') a (time_unix 600) ''token'' = Inr sample_identity"
proof -
  have *: "case sample_authenticator of Inl e \<Rightarrow> False
    | Inr a \<Rightarrow> Authenticate sample_oidc (\<lambda>v. ''0'') a (time_unix 600) ''token'' = Inr sample_identity"
    by code_simp
  show ?thesis
  proof (cases sample_authenticator)
    case (Inl e)
    from * show ?thesis unfolding Inl by simp
  next
    case (Inr a)
    from * show ?thesis unfolding Inr by simp
  qed
qed

text \<open>C5. A token is accepted exactly when it is not empty and at most 16 KiB long, its signature
  algorithm is one some issuer allows, its unverified issuer is the URL of one configured issuer, the
  verifier with that very issuer's keys, audience and algorithms accepts it, and its verified claims
  meet that issuer's requirements (\<open>token_ok\<close>); the identity is then the one these claims determine.
  A token of one issuer is never checked against the keys or the rules of another.\<close>

theorem Authenticate_routes:
  assumes new: "newAuthenticator cfgs skew keySet = Inr a"
  shows "set (au_algs a) = (\<Union>cfg\<in>set cfgs. set (iss_algorithms cfg)) \<and>
    (Authenticate lib ff a now raw = Inr ident \<longleftrightarrow>
      raw \<noteq> '''' \<and> length raw \<le> 16384 \<and>
      (\<exists>payload cfg ks t claims iat expiry.
         parse_signed lib (au_algs a) raw = Inr payload \<and> cfg \<in> set cfgs \<and>
         decode_iss lib payload = Inr (iss_issuer cfg) \<and> keySet cfg = Inr ks \<and>
         verify_token lib \<lparr>ver_issuer = iss_issuer cfg, ver_keys = ks, ver_client_id = iss_audience cfg,
           ver_algs = iss_algorithms cfg, ver_skip_expiry = True\<rparr> raw = Inr t \<and>
         token_claims lib t = Inr claims \<and> token_ok skew now cfg claims iat expiry \<and>
         ident = identity_of ff cfg claims iat expiry))"
proof -
  note a = newAuthenticator_Inr [OF new]
  have routed: "gm_lookup (au_issuers a) url = Some iss \<longleftrightarrow>
      (\<exists>cfg\<in>set cfgs. \<exists>ks. url = iss_issuer cfg \<and> keySet cfg = Inr ks \<and> iss = new_issuer cfg ks)" for url iss
    using a(1) by (simp add: built_from_def)
  have max: "maxTokenBytes = 16384" by (simp add: maxTokenBytes_def)
  have *: "(\<exists>url iss. P url iss \<and> gm_lookup (au_issuers a) url = Some iss \<and> Q iss) \<longleftrightarrow>
      (\<exists>cfg ks. cfg \<in> set cfgs \<and> keySet cfg = Inr ks \<and> P (iss_issuer cfg) (new_issuer cfg ks) \<and> Q (new_issuer cfg ks))"
    for P Q unfolding routed by blast
  have "Authenticate lib ff a now raw = Inr ident \<longleftrightarrow>
      raw \<noteq> '''' \<and> length raw \<le> 16384 \<and> (\<exists>url iss. (\<exists>payload. parse_signed lib (au_algs a) raw = Inr payload \<and>
        decode_iss lib payload = Inr url) \<and> gm_lookup (au_issuers a) url = Some iss \<and>
        (\<exists>t claims iat expiry. verify_token lib (is_verifier iss) raw = Inr t \<and> token_claims lib t = Inr claims \<and>
           token_ok skew now (is_cfg iss) claims iat expiry \<and> ident = identity_of ff (is_cfg iss) claims iat expiry))"
    unfolding Authenticate_Inr_iff a(2) max by blast
  then show ?thesis unfolding * unfolding new_issuer_simps using a(3) by blast
qed

theorem Authenticate_routes_witness:
  "\<exists>a. sample_authenticator = Inr a \<and>
    (\<exists>cfg\<in>set (oidc_issuers (cfg_oidc sample_config)). iss_name cfg = ''ci'' \<and>
      (\<exists>iat expiry. token_ok (seconds 60) (time_unix 600) cfg sample_claims iat expiry))"
proof -
  obtain a where a: "sample_authenticator = Inr a" and
    ok: "Authenticate sample_oidc (\<lambda>v. ''0'') a (time_unix 600) ''token'' = Inr sample_identity"
    using sample_authenticated by blast
  have skew: "oidc_skew (cfg_oidc sample_config) = 60" by code_simp
  note routes = Authenticate_routes [OF a [unfolded sample_authenticator_def skew]]
  from ok routes [of sample_oidc "\<lambda>v. ''0''" "time_unix 600" "''token''" sample_identity]
  obtain cfg :: OIDCIssuer and iat expiry where cfg: "cfg \<in> set (oidc_issuers (cfg_oidc sample_config))"
    "token_ok (seconds 60) (time_unix 600) cfg sample_claims iat expiry"
    "sample_identity = identity_of (\<lambda>v. ''0'') cfg sample_claims iat expiry"
    by (auto simp: sample_oidc_def)
  have "iss_name cfg = id_issuer sample_identity" unfolding cfg(3) by simp
  then have "iss_name cfg = ''ci''" by (simp add: sample_identity_def)
  with a cfg show ?thesis by blast
qed


lemma config_issuer_bounds:
  assumes "config_ok url_parse cfg" and "iss \<in> set (oidc_issuers (cfg_oidc cfg))"
  shows "issuer_ok url_parse iss" "1 \<le> iss_max_lifetime iss" "iss_max_lifetime iss \<le> 86400"
    "0 \<le> oidc_skew (cfg_oidc cfg)" "oidc_skew (cfg_oidc cfg) \<le> 300"
  using assms by (auto simp: config_ok_def issuer_ok_def)

lemma sample_skew: "oidc_skew (cfg_oidc sample_config) = 60"
  by (simp add: sample_config_def applyDefaults_def sample_raw_config_def)

text \<open>C15. With a valid configuration every accepted token is within its lifetime, in exact time: it was
  issued no later than it expires, its lifetime is at most the issuer's bound (so at most a day), and
  the clock is not before its issue or after its expiry by more than the configured skew (at most five
  minutes). The 64-bit durations the code computes with do not overflow on the way.\<close>

theorem accepted_token_window:
  assumes cfg: "config_ok url_parse cfg"
    and new: "newAuthenticator (oidc_issuers (cfg_oidc cfg)) (seconds (oidc_skew (cfg_oidc cfg))) keySet = Inr a"
    and ok: "Authenticate lib ff a now raw = Inr ident"
  shows "\<exists>iss\<in>set (oidc_issuers (cfg_oidc cfg)). id_issuer ident = iss_name iss \<and>
    0 \<le> id_issued_at ident \<and> id_issued_at ident \<le> id_expiry ident \<and>
    id_expiry ident - id_issued_at ident \<le> iss_max_lifetime iss * Second \<and> iss_max_lifetime iss \<le> 86400 \<and>
    id_issued_at ident - oidc_skew (cfg_oidc cfg) * Second \<le> now \<and>
    now \<le> id_expiry ident + oidc_skew (cfg_oidc cfg) * Second"
proof -
  obtain iss :: OIDCIssuer and claims iat expiry where iss: "iss \<in> set (oidc_issuers (cfg_oidc cfg))"
    and tok: "token_ok (seconds (oidc_skew (cfg_oidc cfg))) now iss claims iat expiry"
    and ident: "ident = identity_of ff iss claims iat expiry"
    by (rule Authenticate_issuer [OF new ok])
  note b = config_issuer_bounds [OF cfg iss]
  from token_ok_window [OF tok b(4,5,2,3)] b(3) iss show ?thesis by (auto simp: ident)
qed

theorem accepted_token_window_witness:
  "\<exists>a. sample_authenticator = Inr a \<and> id_issued_at sample_identity - 60 * Second \<le> time_unix 600 \<and>
    id_expiry sample_identity - id_issued_at sample_identity \<le> 86400 * Second"
proof -
  obtain a where a: "sample_authenticator = Inr a" and
    ok: "Authenticate sample_oidc (\<lambda>v. ''0'') a (time_unix 600) ''token'' = Inr sample_identity"
    using sample_authenticated by blast
  from accepted_token_window [OF sample_config_ok a [unfolded sample_authenticator_def] ok] a
  show ?thesis by (fastforce simp: sample_skew Second_def)
qed

text \<open>C31. The identity the policies see carries nothing the operator did not declare: its claims are
  among the issuer's declared claims and at most 1 KiB each, never a registered claim such as
  \<open>exp\<close>; its audit-only claims are among the issuer's audit claims; the subject is not empty; and a
  declared claim that is required has one of its allowed values.\<close>

theorem accepted_identity_declared:
  assumes cfg: "config_ok url_parse cfg"
    and new: "newAuthenticator (oidc_issuers (cfg_oidc cfg)) skew keySet = Inr a"
    and ok: "Authenticate lib ff a now raw = Inr ident"
  shows "\<exists>iss\<in>set (oidc_issuers (cfg_oidc cfg)). id_issuer ident = iss_name iss \<and>
    id_issuer_url ident = iss_issuer iss \<and> id_subject ident \<noteq> '''' \<and> length (id_subject ident) \<le> 1024 \<and>
    (\<forall>c v. gm_lookup (id_claims ident) c = Some v \<longrightarrow>
       c \<in> set (iss_claims iss) \<and> c \<notin> set registeredClaims \<and> length v \<le> 1024) \<and>
    (\<forall>c v. gm_lookup (id_audit_claims ident) c = Some v \<longrightarrow> c \<in> set (iss_audit_claims iss) \<and> length v \<le> 1024) \<and>
    (\<forall>c allowed. gm_lookup (iss_require iss) c = Some allowed \<and> c \<in> set (iss_claims iss) \<longrightarrow>
       (\<exists>v\<in>set allowed. gm_lookup (id_claims ident) c = Some v))"
proof -
  obtain iss :: OIDCIssuer and claims iat expiry where iss: "iss \<in> set (oidc_issuers (cfg_oidc cfg))"
    and tok: "token_ok skew now iss claims iat expiry"
    and ident: "ident = identity_of ff iss claims iat expiry"
    by (rule Authenticate_issuer [OF new ok])
  have decl: "issuer_ok url_parse iss" by (rule config_issuer_bounds [OF cfg iss])
  have subj: "text_ok claims ''sub''" "text_of claims ''sub'' \<notin> {None, Some ''''}" "required_ok claims (iss_require iss)"
    "\<forall>c\<in>set (iss_claims iss). text_ok claims c"
    using tok by (simp_all add: token_ok_def)
  have sub: "id_subject ident \<noteq> '''' \<and> length (id_subject ident) \<le> 1024"
    using subj(1,2) text_ok_length [OF subj(1)] by (cases "text_of claims ''sub''") (auto simp: ident)
  have claims: "c \<in> set (iss_claims iss) \<and> c \<notin> set registeredClaims \<and> length v \<le> 1024"
    if "gm_lookup (id_claims ident) c = Some v" for c v
    using that decl subj(4)
    by (auto simp: ident id_claims_identity_of issuer_ok_def claim_ok_def registeredClaims_def split: if_splits dest: text_ok_length)
  have audit: "c \<in> set (iss_audit_claims iss) \<and> length v \<le> 1024"
    if "gm_lookup (id_audit_claims ident) c = Some v" for c v
    using that by (auto simp: ident id_audit_identity_of split: if_splits dest: auditClaim_length)
  have req: "\<exists>v\<in>set allowed. gm_lookup (id_claims ident) c = Some v"
    if "gm_lookup (iss_require iss) c = Some allowed \<and> c \<in> set (iss_claims iss)" for c allowed
    using that subj(3) by (auto simp: ident id_claims_identity_of required_ok_def)
  show ?thesis
    by (rule bexI [OF _ iss]) (use sub claims audit req in \<open>simp add: ident\<close>)
qed

theorem accepted_identity_declared_witness:
  "gm_lookup (id_claims sample_identity) ''project'' = Some ''p1'' \<and> id_subject sample_identity \<noteq> ''''"
proof -
  obtain a where a: "sample_authenticator = Inr a" and
    ok: "Authenticate sample_oidc (\<lambda>v. ''0'') a (time_unix 600) ''token'' = Inr sample_identity"
    using sample_authenticated by blast
  from accepted_identity_declared [OF sample_config_ok a [unfolded sample_authenticator_def] ok]
  have "id_subject sample_identity \<noteq> ''''" by blast
  then show ?thesis by (simp add: sample_identity_def gm_lookup_of)
qed

lemma add_issuers_validated:
  assumes "\<forall>cfg\<in>set cfgs. issuer_ok url_parse cfg \<and> iss_algorithms cfg \<noteq> []" and "distinct (map iss_issuer cfgs)"
    and "\<forall>cfg\<in>set cfgs. gm_lookup (au_issuers a) (iss_issuer cfg) = None"
  shows "(\<exists>a'. add_issuers keySet a cfgs = Inr a') \<and> (\<forall>cfg\<in>set cfgs. \<exists>ks. keySet cfg = Inr ks) \<or>
    (\<exists>cfg\<in>set cfgs. \<exists>e. keySet cfg = Inl e \<and> add_issuers keySet a cfgs = Inl (KeySetFailed (iss_name cfg) e))"
  using assms
proof (induction keySet a cfgs rule: add_issuers.induct)
  case (1 keySet a)
  then show ?case by simp
next
  case (2 keySet a cfg cfgs)
  have ok: "iss_issuer cfg \<noteq> ''''" "iss_audience cfg \<noteq> ''''" "length (iss_algorithms cfg) \<noteq> 0"
    "\<not> iss_max_lifetime cfg \<le> 0" "gm_lookup (au_issuers a) (iss_issuer cfg) = None"
    using 2(2,4) by (auto simp: issuer_ok_def canonical_url_def split: if_splits)
  show ?case
  proof (cases "keySet cfg")
    case (Inl e)
    with ok show ?thesis by simp
  next
    case (Inr ks)
    have "\<forall>c\<in>set cfgs. gm_lookup (gm_put (iss_issuer cfg) (new_issuer cfg ks) (au_issuers a)) (iss_issuer c) = None"
      using 2(3,4) by (auto intro: rev_image_eqI)
    with 2(1) [of ks] 2(2,3) ok Inr show ?thesis by simp
  qed
qed


text \<open>With a configuration that was loaded, building the authenticator fails for no reason but the
  keys of an issuer: it succeeds exactly when the key set of every issuer is available, and otherwise
  the error names an issuer whose key set failed.\<close>

theorem newAuthenticator_loaded:
  assumes load: "LoadFromBytes ld url_parse schema port bytes = Inr cfg"
  shows "((\<exists>a. newAuthenticator (oidc_issuers (cfg_oidc cfg)) skew keySet = Inr a) \<longleftrightarrow>
      (\<forall>iss\<in>set (oidc_issuers (cfg_oidc cfg)). \<exists>ks. keySet iss = Inr ks)) \<and>
    (\<forall>err. newAuthenticator (oidc_issuers (cfg_oidc cfg)) skew keySet = Inl err \<longrightarrow>
      (\<exists>iss\<in>set (oidc_issuers (cfg_oidc cfg)). \<exists>e. keySet iss = Inl e \<and> err = KeySetFailed (iss_name iss) e))"
proof -
  note ok = LoadFromBytes_config [OF load]
  have "oidc_issuers (cfg_oidc cfg) \<noteq> []" using ok(1) by (simp add: config_ok_def)
  then have eq: "newAuthenticator (oidc_issuers (cfg_oidc cfg)) skew keySet =
      add_issuers keySet \<lparr>au_issuers = gm_empty, au_algs = [], au_skew = skew\<rparr> (oidc_issuers (cfg_oidc cfg))"
    by (simp add: newAuthenticator_def)
  have "(\<exists>a'. add_issuers keySet \<lparr>au_issuers = gm_empty, au_algs = [], au_skew = skew\<rparr> (oidc_issuers (cfg_oidc cfg)) = Inr a') \<and>
      (\<forall>iss\<in>set (oidc_issuers (cfg_oidc cfg)). \<exists>ks. keySet iss = Inr ks) \<or>
    (\<exists>iss\<in>set (oidc_issuers (cfg_oidc cfg)). \<exists>e. keySet iss = Inl e \<and>
      add_issuers keySet \<lparr>au_issuers = gm_empty, au_algs = [], au_skew = skew\<rparr> (oidc_issuers (cfg_oidc cfg))
        = Inl (KeySetFailed (iss_name iss) e))"
    using ok by (intro add_issuers_validated [where url_parse = url_parse]) (simp_all add: config_ok_def)
  then show ?thesis unfolding eq [symmetric] by fastforce
qed

theorem newAuthenticator_loaded_witness:
  "\<exists>a. newAuthenticator (oidc_issuers (cfg_oidc sample_config)) 0 (\<lambda>cfg. Inr () :: string + unit) = Inr a"
  using newAuthenticator_loaded [OF sample_loaded] by blast

end
