(* ===== verification/Go_Fields.thy ===== *)
theory Go_Fields
  imports Go_Prelude
begin

text \<open>
  \<open>strings.Fields\<close> and \<open>strings.TrimSpace\<close> on byte strings. The fields are the maximal runs of
  non-space characters, where a space is one of the UTF-8 encodings of the runes of
  \<open>unicode.IsSpace\<close>. An encoding of a space begins with a byte that is no continuation byte, so it cannot lie inside another valid encoding, and Go's
  decoder (which advances one byte over invalid input) meets it exactly where it begins.
\<close>

definition ascii_space :: "char \<Rightarrow> bool" where
  "ascii_space c = (c \<in> {CHR 0x09, CHR 0x0A, CHR 0x0B, CHR 0x0C, CHR 0x0D, CHR '' ''})"

text \<open>The number of bytes of the space at the front of a string; 0 when there is none.\<close>

fun space_len :: "string \<Rightarrow> nat" where
  "space_len (a # b # c # s) =
     (if ascii_space a then 1
      else if a = CHR 0xC2 \<and> (b = CHR 0x85 \<or> b = CHR 0xA0) then 2
      else if a = CHR 0xE1 \<and> b = CHR 0x9A \<and> c = CHR 0x80 then 3
      else if a = CHR 0xE2 \<and> b = CHR 0x80 \<and>
        (CHR 0x80 \<le> c \<and> c \<le> CHR 0x8A \<or> c = CHR 0xA8 \<or> c = CHR 0xA9 \<or> c = CHR 0xAF) then 3
      else if a = CHR 0xE2 \<and> b = CHR 0x81 \<and> c = CHR 0x9F then 3
      else if a = CHR 0xE3 \<and> b = CHR 0x80 \<and> c = CHR 0x80 then 3
      else 0)"
| "space_len [a, b] =
     (if ascii_space a then 1 else if a = CHR 0xC2 \<and> (b = CHR 0x85 \<or> b = CHR 0xA0) then 2 else 0)"
| "space_len [a] = (if ascii_space a then 1 else 0)"
| "space_len [] = 0"

text \<open>
  \<open>strings.TrimSpace\<close>: the spaces at the front, then those at the end; a space ends a string when
  one of its last three suffixes is the encoding of a space.
\<close>

function trim_left :: "string \<Rightarrow> string" where
  "trim_left s = (if space_len s = 0 then s else trim_left (drop (space_len s) s))"
  by pat_completeness auto

termination
proof (relation "measure length")
  fix s
  assume "space_len s \<noteq> 0"
  then show "(drop (space_len s) s, s) \<in> measure length" by (cases s) auto
qed simp

definition last_space_len :: "string \<Rightarrow> nat" where
  "last_space_len s =
     (if space_len (drop (length s - 1) s) = 1 then 1
      else if 2 \<le> length s \<and> space_len (drop (length s - 2) s) = 2 then 2
      else if 3 \<le> length s \<and> space_len (drop (length s - 3) s) = 3 then 3
      else 0)"

function trim_right :: "string \<Rightarrow> string" where
  "trim_right s = (if last_space_len s = 0 then s else trim_right (take (length s - last_space_len s) s))"
  by pat_completeness auto

termination
proof (relation "measure length")
  fix s
  assume "last_space_len s \<noteq> 0"
  then show "(take (length s - last_space_len s) s, s) \<in> measure length"
    by (cases s) (auto simp: last_space_len_def)
qed simp

definition TrimSpace :: "string \<Rightarrow> string" where
  "TrimSpace s = trim_right (trim_left s)"

declare trim_left.simps [simp del] trim_right.simps [simp del]

lemma TrimSpace_ends:
  "space_len (trim_left s) = 0" "last_space_len (trim_right s) = 0"
proof -
  show "space_len (trim_left s) = 0"
    by (induction s rule: trim_left.induct) (simp add: trim_left.simps)
  show "last_space_len (trim_right s) = 0"
    by (induction s rule: trim_right.induct) (simp add: trim_right.simps)
qed

text \<open>The word read so far is \<open>cur\<close>; \<open>skip\<close> bytes of a space are still to be passed over.\<close>

fun fields_from :: "string \<Rightarrow> nat \<Rightarrow> string \<Rightarrow> string list" where
  "fields_from cur skip [] = (if cur = [] then [] else [cur])"
| "fields_from cur (Suc skip) (c # s) = fields_from cur skip s"
| "fields_from cur 0 (c # s) =
     (case space_len (c # s) of
        0 \<Rightarrow> fields_from (cur @ [c]) 0 s
      | Suc n \<Rightarrow> (if cur = [] then [] else [cur]) @ fields_from [] n s)"

definition Fields :: "string \<Rightarrow> string list" where
  "Fields s = fields_from [] 0 s"

text \<open>A byte that starts no space: above the ASCII spaces and below the multi-byte encodings.\<close>

definition word_char :: "char \<Rightarrow> bool" where
  "word_char c \<longleftrightarrow> CHR '' '' < c \<and> c \<le> CHR ''~''"

lemma space_bytes: "list_all (\<lambda>c. \<not> word_char c)
  [CHR 0x09, CHR 0x0A, CHR 0x0B, CHR 0x0C, CHR 0x0D, CHR '' '', CHR 0xC2, CHR 0xE1, CHR 0xE2, CHR 0xE3]"
  by code_simp

lemma word_char_no_space:
  assumes "word_char c"
  shows "space_len (c # s) = 0"
proof -
  have "\<not> ascii_space c" "c \<noteq> CHR 0xC2" "c \<noteq> CHR 0xE1" "c \<noteq> CHR 0xE2" "c \<noteq> CHR 0xE3"
    using assms space_bytes by (auto simp: ascii_space_def)
  then show ?thesis by (cases "c # s" rule: space_len.cases) auto
qed

lemma space_len_blank: "space_len (CHR '' '' # s) = 1"
  by (cases "CHR '' '' # s" rule: space_len.cases) (auto simp: ascii_space_def)

lemma fields_word:
  "\<forall>c\<in>set w. word_char c \<Longrightarrow> fields_from cur 0 (w @ s) = fields_from (cur @ w) 0 s"
  by (induction w arbitrary: cur) (auto simp: word_char_no_space)

lemma fields_blank: "fields_from cur 0 (CHR '' '' # s) = (if cur = [] then [] else [cur]) @ fields_from [] 0 s"
  by (simp add: space_len_blank)

text \<open>Joining words with blanks and splitting gives the words back.\<close>

lemma Fields_join:
  assumes "\<forall>w\<in>set ws. w \<noteq> [] \<and> (\<forall>c\<in>set w. word_char c)"
  shows "Fields (join_with '' '' ws) = ws"
  using assms
proof (induction ws rule: induct_list012)
  case 1
  then show ?case by (simp add: Fields_def)
next
  case (2 w)
  then show ?case using fields_word [of w "[]" "[]"] by (simp add: Fields_def)
next
  case (3 v w ws)
  then have IH: "fields_from [] 0 (join_with '' '' (w # ws)) = w # ws"
    and v: "v \<noteq> []" "\<forall>c\<in>set v. word_char c" by (simp_all add: Fields_def)
  have "fields_from [] 0 (v @ CHR '' '' # join_with '' '' (w # ws)) = v # w # ws"
    using fields_word [OF v(2), of "[]" "CHR '' '' # join_with '' '' (w # ws)"] v(1) IH
    by (simp only: append_Nil fields_blank) simp
  then show ?case by (simp add: Fields_def)
qed

text \<open>Fields are never empty.\<close>

lemma fields_from_nonempty: "w \<in> set (fields_from cur n s) \<Longrightarrow> w \<noteq> []"
  by (induction cur n s rule: fields_from.induct) (auto split: nat.splits if_splits)

end
