(* ===== verification/Githubapp.thy ===== *)
theory Githubapp
  imports Perm Resource Config Go_Fields
begin

text \<open>
  The package \<open>internal/githubapp\<close>: loading the private key, resolving the installation of an
  owner, minting installation tokens, the App's own identity and the check of its permissions.

  Every call to GitHub is explicit. A program part is a function on the list of requests sent so
  far (the trace); \<open>send\<close> appends a request and returns what the network answers, which may
  depend on the whole trace, so that statements over all networks cover any interleaving of
  answers. Parameters (record \<open>github_lib\<close>): the network, the construction of requests from
  URLs, the status check and JSON decoding of \<open>github.Client.Do\<close> and the JSON decoders of
  the response bodies. \<open>json.Marshal\<close> of a token request never fails (strings and a map of
  strings); \<open>omitempty\<close> is written out.
\<close>

section \<open>Standard library: PathEscape and decimal numbers\<close>

text \<open>\<open>url.PathEscape\<close>: a byte outside the unreserved set of a path segment becomes \<open>%XX\<close>.\<close>

definition should_escape :: "char \<Rightarrow> bool" where
  "should_escape c = (\<not> alnum c \<and> c \<notin> set ''-_.~$&+:=@'')"

definition upperhex :: "nat \<Rightarrow> char" where
  "upperhex n = (if n < 10 then char_of (n + 48) else char_of (n + 55))"

definition PathEscape :: "string \<Rightarrow> string" where
  "PathEscape s = concat (map (\<lambda>c. if should_escape c
     then [CHR ''%'', upperhex (of_char c div 16), upperhex (of_char c mod 16)] else [c]) s)"

fun dec_nat :: "nat \<Rightarrow> string" where
  "dec_nat n = (case n < 10 of
     True \<Rightarrow> [char_of (n + 48)]
   | False \<Rightarrow> dec_nat (n div 10) @ [char_of (n mod 10 + 48)])"

declare dec_nat.simps [simp del]

definition dec_int :: "int \<Rightarrow> string" where
  "dec_int n = (if n < 0 then ''-'' @ dec_nat (nat (- n)) else dec_nat (nat n))"

section \<open>Data\<close>

definition defaultBaseURL :: string where "defaultBaseURL = ''https://api.github.com''"
definition apiVersion :: string where "apiVersion = ''2026-03-10''"

record installation =
  inst_id :: int
  inst_permissions :: perms

record ScopedToken =
  tok_token :: string
  tok_expires_at :: int
  tok_permissions :: perms
  tok_repositories :: "string list"

record AppIdentity =
  ai_slug :: string
  ai_bot_id :: int
  ai_name :: string
  ai_email :: string

text \<open>
  The clients a request is sent with: the go-github client, the raw client with the App's JWT, and
  the client without it. The body of a POST has the two fields of \<open>tokenRequest\<close>,
  \<^const>\<open>None\<close> when \<open>omitempty\<close> leaves the field out.
\<close>

datatype http_client = Apps | AppHTTP | Public

datatype http_body = NoBody | TokenBody "string list option" "perms option"

record request =
  rq_client :: http_client
  rq_method :: string
  rq_url :: string
  rq_headers :: "string gomap"
  rq_body :: http_body

record http_response =
  rs_status :: nat
  rs_body :: string

record tokenResponse =
  tr_token :: string
  tr_expires_at :: int
  tr_permissions :: perms
  tr_repositories :: "string list"

record github_lib =
  gl_net :: "request list \<Rightarrow> request \<Rightarrow> string + http_response"
  gl_new_request :: "string \<Rightarrow> string + unit"
  gl_apps_request :: "string \<Rightarrow> string + unit"
  gl_apps_check :: "http_response \<Rightarrow> string + string"
  gl_installation :: "string \<Rightarrow> string + installation"
  gl_token_response :: "string \<Rightarrow> string + tokenResponse"
  gl_user_id :: "string \<Rightarrow> string + int"
  gl_app_slug :: "string \<Rightarrow> string + string"
  gl_installation_ids :: "string \<Rightarrow> string + int list"
  gl_manifest :: "string \<Rightarrow> string + string \<times> perms"

record Client =
  cl_app_id :: int
  cl_base_url :: string
  cl_app_identity :: AppIdentity

datatype key_error = ReadKeyFile string | EmptyKeyEnv string | NoKeyConfigured | BadKey string

datatype mint_error =
    ErrEmptyScope
  | ErrInsufficientScope string
  | NoResources
  | UnsupportedKind string
  | BuildInstallationRequest string
  | NoInstallation string string
  | BuildEnterpriseRequest string
  | EnterpriseLookup string
  | NoEnterpriseInstallation string nat string
  | DecodeEnterprise string
  | BuildTokenRequest string
  | MintTransport string
  | TokenStatus nat string
  | DecodeToken string
  | FetchApp string
  | ListInstallations string
  | NoInstallations
  | MintIdentity mint_error
  | BuildBotUser string
  | FetchBotUser string
  | BotUserStatus nat string
  | DecodeBotUser string
  | BuildManifest string
  | FetchManifest string
  | AppPermissions string

section \<open>The private key\<close>

text \<open>\<open>read_file\<close> and \<open>getenv\<close> are \<open>os.ReadFile\<close> and \<open>os.Getenv\<close>.\<close>

definition loadPrivateKey ::
  "(string \<Rightarrow> string + string) \<Rightarrow> (string \<Rightarrow> string) \<Rightarrow> GitHubAppConfig \<Rightarrow> key_error + string" where
  "loadPrivateKey read_file getenv cfg =
     (if app_key_path cfg \<noteq> '''' then map_err ReadKeyFile (read_file (app_key_path cfg))
      else if app_key_env cfg \<noteq> '''' then
        (let v = getenv (app_key_env cfg) in if v = '''' then Inl (EmptyKeyEnv (app_key_env cfg)) else Inr v)
      else Inl NoKeyConfigured)"

text \<open>\<open>apps_transport\<close> is \<open>ghinstallation.NewAppsTransport\<close> and \<open>github.NewClient\<close>.\<close>

definition new_client ::
  "(int \<Rightarrow> string \<Rightarrow> string + unit) \<Rightarrow> (string \<Rightarrow> string + string) \<Rightarrow> (string \<Rightarrow> string) \<Rightarrow>
   GitHubAppConfig \<Rightarrow> key_error + Client" where
  "new_client apps_transport read_file getenv cfg =
     bind_r (loadPrivateKey read_file getenv cfg) (\<lambda>pem.
     bind_r (map_err BadKey (apps_transport (app_id cfg) pem)) (\<lambda>_.
     Inr \<lparr>cl_app_id = app_id cfg, cl_base_url = defaultBaseURL,
       cl_app_identity = \<lparr>ai_slug = '''', ai_bot_id = 0, ai_name = '''', ai_email = ''''\<rparr>\<rparr>))"

section \<open>Talking to GitHub\<close>

type_synonym 'a io = "request list \<Rightarrow> (mint_error + 'a) \<times> request list"

definition ret :: "'a \<Rightarrow> 'a io" where
  "ret x = (\<lambda>t. (Inr x, t))"

definition fail :: "mint_error \<Rightarrow> 'a io" where
  "fail e = (\<lambda>t. (Inl e, t))"

definition lift_r :: "mint_error + 'a \<Rightarrow> 'a io" where
  "lift_r m = (\<lambda>t. (m, t))"

definition bind_io :: "'a io \<Rightarrow> ('a \<Rightarrow> 'b io) \<Rightarrow> 'b io" where
  "bind_io m f = (\<lambda>t. case m t of (Inl e, t') \<Rightarrow> (Inl e, t') | (Inr x, t') \<Rightarrow> f x t')"

text \<open>The transport below every client: it sets the API version, then the request goes out.\<close>

definition apiVersionTransport :: "request \<Rightarrow> request" where
  "apiVersionTransport req =
     req\<lparr>rq_headers := gm_put ''X-GitHub-Api-Version'' apiVersion (rq_headers req)\<rparr>"

definition send :: "github_lib \<Rightarrow> (string \<Rightarrow> mint_error) \<Rightarrow> request \<Rightarrow> http_response io" where
  "send lib err req = (\<lambda>t.
     (let req' = apiVersionTransport req in (map_err err (gl_net lib t req'), t @ [req'])))"

definition get_request :: "http_client \<Rightarrow> string \<Rightarrow> (string \<times> string) list \<Rightarrow> request" where
  "get_request client url headers = \<lparr>rq_client = client, rq_method = ''GET'', rq_url = url,
     rq_headers = gm_of headers, rq_body = NoBody\<rparr>"

text \<open>
  \<open>apps.NewRequest\<close> and \<open>apps.Do\<close> with a pointer to decode into; the path is relative to the
  library's base URL. \<open>build\<close> and \<open>err\<close> wrap the two errors.
\<close>

definition apps_get ::
  "github_lib \<Rightarrow> (string \<Rightarrow> mint_error) \<Rightarrow> (string \<Rightarrow> mint_error) \<Rightarrow> (string \<Rightarrow> string + 'a) \<Rightarrow> string \<Rightarrow> 'a io" where
  "apps_get lib build err decode path =
     bind_io (lift_r (map_err build (gl_apps_request lib path))) (\<lambda>_.
     bind_io (send lib err (get_request Apps path [])) (\<lambda>resp.
     lift_r (map_err err (bind_r (gl_apps_check lib resp) decode))))"

section \<open>Installations\<close>

text \<open>
  The loop over the two endpoints: a failed attempt continues with the next one and its error is
  the one reported; a request that cannot be built ends the function.
\<close>

fun try_paths :: "github_lib \<Rightarrow> string \<Rightarrow> mint_error \<Rightarrow> string list \<Rightarrow> installation io" where
  "try_paths lib owner lastErr [] = fail lastErr"
| "try_paths lib owner lastErr (path # paths) = (\<lambda>t.
     case apps_get lib BuildInstallationRequest (NoInstallation owner) (gl_installation lib) path t of
       (Inr inst, t') \<Rightarrow> (Inr inst, t')
     | (Inl (BuildInstallationRequest e), t') \<Rightarrow> (Inl (BuildInstallationRequest e), t')
     | (Inl e, t') \<Rightarrow> try_paths lib owner e paths t')"

definition resolveInstallation :: "github_lib \<Rightarrow> string \<Rightarrow> installation io" where
  "resolveInstallation lib owner =
     (let escaped = PathEscape owner in
      try_paths lib owner (NoInstallation owner '''')
        [''orgs/'' @ escaped @ ''/installation'', ''users/'' @ escaped @ ''/installation''])"

definition snippet :: "string \<Rightarrow> string" where
  "snippet body = TrimSpace (take 2048 body)"

definition resolveEnterpriseInstallation :: "github_lib \<Rightarrow> Client \<Rightarrow> string \<Rightarrow> installation io" where
  "resolveEnterpriseInstallation lib c slg =
     (let endpoint = cl_base_url c @ ''/enterprises/'' @ PathEscape slg @ ''/installation'' in
      bind_io (lift_r (map_err BuildEnterpriseRequest (gl_new_request lib endpoint))) (\<lambda>_.
      bind_io (send lib EnterpriseLookup
        (get_request AppHTTP endpoint [(''Accept'', ''application/vnd.github+json'')])) (\<lambda>resp.
      if rs_status resp \<noteq> 200
      then fail (NoEnterpriseInstallation slg (rs_status resp) (snippet (rs_body resp)))
      else lift_r (map_err DecodeEnterprise (gl_installation lib (rs_body resp))))))"

section \<open>Minting\<close>

definition omit_list :: "'a list \<Rightarrow> 'a list option" where
  "omit_list xs = (if xs = [] then None else Some xs)"

definition omit_map :: "'v gomap \<Rightarrow> 'v gomap option" where
  "omit_map m = (if gm_len m = 0 then None else Some m)"

definition token_request :: "Client \<Rightarrow> int \<Rightarrow> string list \<Rightarrow> perms \<Rightarrow> request" where
  "token_request c ident repos perms =
     \<lparr>rq_client = AppHTTP, rq_method = ''POST'',
      rq_url = cl_base_url c @ ''/app/installations/'' @ dec_int ident @ ''/access_tokens'',
      rq_headers = gm_of [(''Accept'', ''application/vnd.github+json''), (''Content-Type'', ''application/json'')],
      rq_body = TokenBody (omit_list repos) (omit_map perms)\<rparr>"

text \<open>The common part of the two functions, from building the request to decoding the answer.\<close>

definition post_token :: "github_lib \<Rightarrow> request \<Rightarrow> tokenResponse io" where
  "post_token lib req =
     bind_io (lift_r (map_err BuildTokenRequest (gl_new_request lib (rq_url req)))) (\<lambda>_.
     bind_io (send lib MintTransport req) (\<lambda>resp.
     if rs_status resp \<noteq> 201 then fail (TokenStatus (rs_status resp) (snippet (rs_body resp)))
     else lift_r (map_err DecodeToken (gl_token_response lib (rs_body resp)))))"

definition MintScopedToken ::
  "github_lib \<Rightarrow> Client \<Rightarrow> int \<Rightarrow> string list \<Rightarrow> perms \<Rightarrow> ScopedToken io" where
  "MintScopedToken lib c ident repoNames perms =
     (if length repoNames = 0 \<or> gm_len perms = 0 then fail ErrEmptyScope
      else bind_io (post_token lib (token_request c ident repoNames perms)) (\<lambda>tr.
        ret \<lparr>tok_token = tr_token tr, tok_expires_at = tr_expires_at tr,
          tok_permissions = tr_permissions tr, tok_repositories = tr_repositories tr\<rparr>))"

definition MintInstallationToken :: "github_lib \<Rightarrow> Client \<Rightarrow> int \<Rightarrow> perms \<Rightarrow> ScopedToken io" where
  "MintInstallationToken lib c ident perms =
     (if gm_len perms = 0 then fail ErrEmptyScope
      else bind_io (post_token lib (token_request c ident [] perms)) (\<lambda>tr.
        ret \<lparr>tok_token = tr_token tr, tok_expires_at = tr_expires_at tr,
          tok_permissions = tr_permissions tr, tok_repositories = []\<rparr>))"

definition formatGaps :: "string \<Rightarrow> string gomap \<Rightarrow> string" where
  "formatGaps header gaps =
     header @ concat (map (\<lambda>k. [CHR 0x0A] @ ''  - '' @ k @ '': '' @
       (case gm_lookup gaps k of None \<Rightarrow> '''' | Some g \<Rightarrow> g)) (sort (gm_keys gaps)))"

text \<open>\<open>%q\<close> of an owner, which is a login or a slug and so needs no escapes.\<close>

definition quoted :: "string \<Rightarrow> string" where
  "quoted s = [CHR 0x22] @ s @ [CHR 0x22]"

definition mint_with ::
  "github_lib \<Rightarrow> Client \<Rightarrow> string \<Rightarrow> resource list \<Rightarrow> perms \<Rightarrow> Kind \<Rightarrow> installation \<Rightarrow> ScopedToken io" where
  "mint_with lib c owner resources perms kind inst =
     (let ceiling = inst_permissions inst in
      case Gaps perms ceiling of
        Some gaps \<Rightarrow> fail (ErrInsufficientScope (formatGaps
          (''githubapp: installation for '' @ quoted owner @ '' does not cover requested permissions:'') gaps))
      | None \<Rightarrow>
          (let finalPerms = Intersect [perms, ceiling] in
           if kind = KindRepo
           then MintScopedToken lib c (inst_id inst) (RepoShortNames resources) finalPerms
           else if kind = KindOrg \<or> kind = KindEnterprise
           then MintInstallationToken lib c (inst_id inst) finalPerms
           else fail (UnsupportedKind kind)))"

definition Mint ::
  "github_lib \<Rightarrow> Client \<Rightarrow> string \<Rightarrow> resource list \<Rightarrow> perms \<Rightarrow> ScopedToken io" where
  "Mint lib c owner resources perms =
     (if length resources = 0 then fail NoResources
      else
        (let kind = res_kind (hd resources) in
         if kind = KindRepo \<or> kind = KindOrg then
           bind_io (resolveInstallation lib owner) (mint_with lib c owner resources perms kind)
         else if kind = KindEnterprise then
           bind_io (resolveEnterpriseInstallation lib c owner) (mint_with lib c owner resources perms kind)
         else fail (UnsupportedKind kind)))"

section \<open>The App's identity and permissions\<close>

definition identityToken :: "github_lib \<Rightarrow> Client \<Rightarrow> string io" where
  "identityToken lib c =
     bind_io (apps_get lib ListInstallations ListInstallations (gl_installation_ids lib)
       ''app/installations?per_page=1'') (\<lambda>insts.
     if length insts = 0 then fail NoInstallations
     else (\<lambda>t. case MintInstallationToken lib c (hd insts) (gm_of [(''metadata'', ''read'')]) t of
         (Inl e, t') \<Rightarrow> (Inl (MintIdentity e), t')
       | (Inr token, t') \<Rightarrow> (Inr (tok_token token), t')))"

text \<open>The second half of \<open>FetchAppIdentity\<close>, once the slug and the token are there.\<close>

definition fetch_bot_user :: "github_lib \<Rightarrow> Client \<Rightarrow> string \<Rightarrow> string \<Rightarrow> (AppIdentity \<times> Client) io" where
  "fetch_bot_user lib c slg token =
     (let url = cl_base_url c @ ''/users/'' @ slg @ ''%5Bbot%5D'' in
      bind_io (lift_r (map_err BuildBotUser (gl_new_request lib url))) (\<lambda>_.
      bind_io (send lib FetchBotUser (get_request Public url
        [(''Accept'', ''application/vnd.github+json''), (''Authorization'', ''Bearer '' @ token)])) (\<lambda>resp.
      if rs_status resp \<noteq> 200 then fail (BotUserStatus (rs_status resp) (snippet (rs_body resp)))
      else
        bind_io (lift_r (map_err DecodeBotUser (gl_user_id lib (rs_body resp)))) (\<lambda>botUser.
        (let identity = \<lparr>ai_slug = slg, ai_bot_id = botUser, ai_name = slg @ ''[bot]'',
               ai_email = dec_int botUser @ ''+'' @ slg @ ''[bot]@users.noreply.github.com''\<rparr>
         in ret (identity, c\<lparr>cl_app_identity := identity\<rparr>))))))"

definition FetchAppIdentity :: "github_lib \<Rightarrow> Client \<Rightarrow> (AppIdentity \<times> Client) io" where
  "FetchAppIdentity lib c =
     bind_io (apps_get lib FetchApp FetchApp (gl_app_slug lib) ''app'') (\<lambda>slg.
     bind_io (identityToken lib c) (\<lambda>token. fetch_bot_user lib c slg token))"

definition ValidateAppPermissions :: "github_lib \<Rightarrow> perms \<Rightarrow> unit io" where
  "ValidateAppPermissions lib required =
     (if gm_len required = 0 then ret ()
      else
        bind_io (apps_get lib BuildManifest FetchManifest (gl_manifest lib) ''app'') (\<lambda>(name, actual).
        case Gaps required actual of
          None \<Rightarrow> ret ()
        | Some gaps \<Rightarrow> fail (AppPermissions (formatGaps
            ''githubapp: app permissions do not cover policy grants:'' gaps))))"

section \<open>What is sent\<close>

lemma bind_io_cases:
  assumes "bind_io m f t = (r, t')"
  obtains (err) e where "m t = (Inl e, t')" "r = Inl e"
    | (ok) x t1 where "m t = (Inr x, t1)" "f x t1 = (r, t')"
  using assms by (auto simp: bind_io_def split: prod.splits sum.splits)

lemma io_simps [simp]:
  "ret x t = (Inr x, t)" "fail e t = (Inl e, t)" "lift_r m t = (m, t)"
  by (simp_all add: ret_def fail_def lift_r_def)

lemma bind_lift [simp]: "bind_io (lift_r m) f t = (case m of Inl e \<Rightarrow> (Inl e, t) | Inr x \<Rightarrow> f x t)"
  by (simp add: bind_io_def split: sum.split)

lemma bind_io_Inr: "m t = (Inr x, t1) \<Longrightarrow> bind_io m f t = f x t1"
  by (simp add: bind_io_def)

lemma bind_send: "bind_io (send lib err req) f t =
    (case gl_net lib t (apiVersionTransport req) of
       Inl e \<Rightarrow> (Inl (err e), t @ [apiVersionTransport req])
     | Inr resp \<Rightarrow> f resp (t @ [apiVersionTransport req]))"
  by (simp add: bind_io_def send_def Let_def split: sum.split)

text \<open>The go-github answer to the last request of a trace, decoded.\<close>

definition apps_answer :: "github_lib \<Rightarrow> (string \<Rightarrow> string + 'a) \<Rightarrow> request list \<Rightarrow> request \<Rightarrow> 'a \<Rightarrow> bool" where
  "apps_answer lib decode t q x \<longleftrightarrow>
     (\<exists>resp. gl_net lib t q = Inr resp \<and> bind_r (gl_apps_check lib resp) decode = Inr x)"

lemma apps_get_spec:
  assumes "apps_get lib build err decode path t = (r, t')"
  shows "(t' = t \<and> (\<exists>e. gl_apps_request lib path = Inl e \<and> r = Inl (build e))) \<or>
    (t' = t @ [apiVersionTransport (get_request Apps path [])] \<and>
      ((\<exists>e. r = Inl (err e)) \<or>
       (\<exists>x. r = Inr x \<and> apps_answer lib decode t (apiVersionTransport (get_request Apps path [])) x)))"
proof (cases "gl_apps_request lib path")
  case (Inl e)
  with assms show ?thesis by (simp add: apps_get_def)
next
  case (Inr u)
  let ?q = "apiVersionTransport (get_request Apps path [])"
  show ?thesis
  proof (cases "gl_net lib t ?q")
    case (Inl e)
    with assms Inr show ?thesis by (auto simp: apps_get_def bind_send)
  next
    case (Inr resp)
    with assms \<open>gl_apps_request lib path = Inr u\<close> show ?thesis
      by (cases "bind_r (gl_apps_check lib resp) decode") (auto simp: apps_get_def bind_send apps_answer_def)
  qed
qed

definition is_get :: "request \<Rightarrow> bool" where
  "is_get q \<longleftrightarrow> rq_method q = ''GET'' \<and> rq_body q = NoBody"

lemma get_request_simps [simp]:
  "is_get (apiVersionTransport (get_request c u h))"
  "rq_url (apiVersionTransport (get_request c u h)) = u"
  "rq_client (apiVersionTransport (get_request c u h)) = c"
  by (simp_all add: is_get_def apiVersionTransport_def get_request_def)

text \<open>Where an installation came from: the answer to the last of the requests \<open>gets\<close>.\<close>

definition found_by_apps :: "github_lib \<Rightarrow> request list \<Rightarrow> request list \<Rightarrow> installation \<Rightarrow> bool" where
  "found_by_apps lib t gets inst \<longleftrightarrow>
     gets \<noteq> [] \<and> apps_answer lib (gl_installation lib) (t @ butlast gets) (last gets) inst"

lemma try_paths_spec:
  assumes "try_paths lib owner e0 paths t = (r, t')"
  shows "\<exists>gets. t' = t @ gets \<and> length gets \<le> length paths \<and>
    (\<forall>q\<in>set gets. is_get q \<and> rq_client q = Apps \<and> rq_url q \<in> set paths) \<and>
    (\<forall>inst. r = Inr inst \<longrightarrow> found_by_apps lib t gets inst) \<and> r \<noteq> Inl ErrEmptyScope \<or> paths = [] \<and> r = Inl e0 \<and> t' = t"
  using assms
proof (induction paths arbitrary: e0 t)
  case Nil
  then show ?case by simp
next
  case (Cons path paths)
  let ?q = "apiVersionTransport (get_request Apps path [])"
  obtain r1 t1 where a: "apps_get lib BuildInstallationRequest (NoInstallation owner) (gl_installation lib) path t = (r1, t1)"
    by fastforce
  from apps_get_spec [OF a] show ?case
  proof (elim disjE conjE exE)
    fix e
    assume "t1 = t" "r1 = Inl (BuildInstallationRequest e)"
    with Cons.prems a show ?thesis by auto
  next
    fix inst
    assume "t1 = t @ [?q]" "r1 = Inr inst" "apps_answer lib (gl_installation lib) t ?q inst"
    with Cons.prems a show ?thesis by (auto simp: found_by_apps_def intro!: exI [of _ "[?q]"])
  next
    fix e
    assume t1: "t1 = t @ [?q]" and r1: "r1 = Inl (NoInstallation owner e)"
    with Cons.prems a have rest: "try_paths lib owner (NoInstallation owner e) paths t1 = (r, t')" by simp
    show ?thesis
    proof (cases "paths = []")
      case True
      with rest t1 show ?thesis by (auto intro!: exI [of _ "[?q]"])
    next
      case False
      with Cons.IH [OF rest] obtain gets where gets: "t' = t1 @ gets" "length gets \<le> length paths"
        "\<forall>q\<in>set gets. is_get q \<and> rq_client q = Apps \<and> rq_url q \<in> set paths"
        "\<forall>inst. r = Inr inst \<longrightarrow> found_by_apps lib t1 gets inst" "r \<noteq> Inl ErrEmptyScope" by blast
      then have "\<forall>inst. r = Inr inst \<longrightarrow> found_by_apps lib t (?q # gets) inst"
        by (auto simp: found_by_apps_def t1)
      with gets t1 show ?thesis by (intro disjI1 exI [of _ "?q # gets"]) auto
    qed
  qed
qed


lemma post_token_spec:
  assumes "post_token lib req t = (r, t')"
  shows "(t' = t \<and> (\<exists>e. r = Inl (BuildTokenRequest e))) \<or>
    (t' = t @ [apiVersionTransport req] \<and> r \<noteq> Inl ErrEmptyScope)"
  using assms by (auto simp: post_token_def bind_send map_err_def split: sum.splits if_splits)

lemma gm_len_neq_0: "gm_len m \<noteq> 0 \<longleftrightarrow> gm_lookup m \<noteq> Map.empty"
  by (simp add: gm_len_0_iff)

definition token_post :: "Client \<Rightarrow> int \<Rightarrow> string list \<Rightarrow> perms \<Rightarrow> request" where
  "token_post c ident repos ps = apiVersionTransport (token_request c ident repos ps)"

lemma token_post_simps [simp]:
  "rq_method (token_post c ident repos ps) = ''POST''"
  "rq_url (token_post c ident repos ps) = cl_base_url c @ ''/app/installations/'' @ dec_int ident @ ''/access_tokens''"
  "rq_body (token_post c ident repos ps) = TokenBody (omit_list repos) (omit_map ps)"
  by (simp_all add: token_post_def apiVersionTransport_def token_request_def)

lemma MintScopedToken_spec:
  assumes "MintScopedToken lib c ident repos ps t = (r, t')"
  shows "(t' = t \<and> (\<exists>e. r = Inl e) \<and> (r = Inl ErrEmptyScope \<longleftrightarrow> repos = [] \<or> gm_lookup ps = Map.empty)) \<or>
    (t' = t @ [token_post c ident repos ps] \<and> repos \<noteq> [] \<and> gm_lookup ps \<noteq> Map.empty \<and> r \<noteq> Inl ErrEmptyScope)"
proof (cases "length repos = 0 \<or> gm_len ps = 0")
  case True
  with assms show ?thesis by (auto simp: MintScopedToken_def gm_len_0_iff split: if_splits)
next
  case False
  obtain r1 t1 where p: "post_token lib (token_request c ident repos ps) t = (r1, t1)" by fastforce
  from False assms post_token_spec [OF p] show ?thesis
    by (auto simp: MintScopedToken_def bind_io_def p gm_len_0_iff token_post_def split: sum.splits)
qed

lemma MintInstallationToken_spec:
  assumes "MintInstallationToken lib c ident ps t = (r, t')"
  shows "(t' = t \<and> (\<exists>e. r = Inl e) \<and> (r = Inl ErrEmptyScope \<longleftrightarrow> gm_lookup ps = Map.empty)) \<or>
    (t' = t @ [token_post c ident [] ps] \<and> gm_lookup ps \<noteq> Map.empty \<and> r \<noteq> Inl ErrEmptyScope)"
proof (cases "gm_len ps = 0")
  case True
  with assms show ?thesis by (auto simp: MintInstallationToken_def gm_len_0_iff split: if_splits)
next
  case False
  obtain r1 t1 where p: "post_token lib (token_request c ident [] ps) t = (r1, t1)" by fastforce
  from False assms post_token_spec [OF p] show ?thesis
    by (auto simp: MintInstallationToken_def bind_io_def p gm_len_0_iff token_post_def split: sum.splits)
qed

lemma RepoShortNames_repo: "rs \<noteq> [] \<Longrightarrow> res_kind (hd rs) = KindRepo \<Longrightarrow> RepoShortNames rs = map res_name rs"
  by (simp add: RepoShortNames_def)

definition kind_ok :: "Kind \<Rightarrow> bool" where
  "kind_ok kind \<longleftrightarrow> kind = KindRepo \<or> kind = KindOrg \<or> kind = KindEnterprise"

text \<open>The repositories a token is asked for: those of the request, or no restriction.\<close>

definition token_repos :: "resource list \<Rightarrow> string list" where
  "token_repos rs = (if res_kind (hd rs) = KindRepo then map res_name rs else [])"

lemma mint_with_spec:
  assumes m: "mint_with lib c owner rs ps (res_kind (hd rs)) inst t = (r, t')"
    and rs: "rs \<noteq> []" and kind: "kind_ok (res_kind (hd rs))"
  shows "(t' = t \<and> (\<exists>e. r = Inl e) \<and> (r = Inl ErrEmptyScope \<longrightarrow> gm_lookup (Normalize ps) = Map.empty) \<and>
      (\<not> Satisfies ps (inst_permissions inst) \<longrightarrow> (\<exists>m. r = Inl (ErrInsufficientScope m)))) \<or>
    (t' = t @ [token_post c (inst_id inst) (token_repos rs) (Intersect [ps, inst_permissions inst])] \<and>
      Satisfies ps (inst_permissions inst) \<and> gm_lookup (Normalize ps) \<noteq> Map.empty \<and> r \<noteq> Inl ErrEmptyScope)"
proof (cases "Gaps ps (inst_permissions inst)")
  case (Some gaps)
  then have "\<not> Satisfies ps (inst_permissions inst)" using Gaps_None_iff [of ps "inst_permissions inst"] by simp
  with m Some show ?thesis by (auto simp: mint_with_def)
next
  case None
  let ?f = "Intersect [ps, inst_permissions inst]"
  have sat: "Satisfies ps (inst_permissions inst)" using None by (simp add: Gaps_None_iff)
  have f: "gm_lookup ?f = gm_lookup (Normalize ps)" by (rule Intersect_exact [OF sat])
  show ?thesis
  proof (cases "res_kind (hd rs) = KindRepo")
    case True
    then have "MintScopedToken lib c (inst_id inst) (token_repos rs) ?f t = (r, t')"
      using m None rs by (simp add: mint_with_def Let_def RepoShortNames_repo token_repos_def)
    from MintScopedToken_spec [OF this] sat rs True show ?thesis by (auto simp: f token_repos_def)
  next
    case False
    then have "MintInstallationToken lib c (inst_id inst) ?f t = (r, t')"
      using m None kind by (simp add: mint_with_def Let_def kind_ok_def split: if_splits)
    from MintInstallationToken_spec [OF this] sat False show ?thesis by (auto simp: f token_repos_def)
  qed
qed

section \<open>What Mint sends\<close>

definition lookup_urls :: "Client \<Rightarrow> Kind \<Rightarrow> string \<Rightarrow> string list" where
  "lookup_urls c kind owner =
     (if kind = KindEnterprise then [cl_base_url c @ ''/enterprises/'' @ PathEscape owner @ ''/installation'']
      else [''orgs/'' @ PathEscape owner @ ''/installation'', ''users/'' @ PathEscape owner @ ''/installation''])"

definition found_installation ::
  "github_lib \<Rightarrow> Kind \<Rightarrow> request list \<Rightarrow> request list \<Rightarrow> installation \<Rightarrow> bool" where
  "found_installation lib kind t gets inst \<longleftrightarrow>
     (if kind = KindEnterprise
      then \<exists>q resp. gets = [q] \<and> gl_net lib t q = Inr resp \<and> rs_status resp = 200 \<and>
        gl_installation lib (rs_body resp) = Inr inst
      else found_by_apps lib t gets inst)"

lemma resolve_spec:
  assumes "(if kind = KindEnterprise then resolveEnterpriseInstallation lib c owner else resolveInstallation lib owner) t = (r, t')"
  shows "\<exists>gets. t' = t @ gets \<and> length gets \<le> 2 \<and>
    (\<forall>q\<in>set gets. is_get q \<and> rq_url q \<in> set (lookup_urls c kind owner)) \<and>
    (\<forall>inst. r = Inr inst \<longrightarrow> found_installation lib kind t gets inst) \<and> r \<noteq> Inl ErrEmptyScope"
proof (cases "kind = KindEnterprise")
  case False
  then have "try_paths lib owner (NoInstallation owner '''') (lookup_urls c kind owner) t = (r, t')"
    and "lookup_urls c kind owner \<noteq> []" and "length (lookup_urls c kind owner) = 2"
    using assms by (simp_all add: resolveInstallation_def lookup_urls_def Let_def)
  with try_paths_spec [of lib owner "NoInstallation owner ''''" "lookup_urls c kind owner" t r t'] False
  show ?thesis by (auto simp: found_installation_def)
next
  case True
  define url where "url = cl_base_url c @ ''/enterprises/'' @ PathEscape owner @ ''/installation''"
  define q where "q = apiVersionTransport (get_request AppHTTP url [(''Accept'', ''application/vnd.github+json'')])"
  have q: "is_get q" "rq_url q = url" by (simp_all add: q_def)
  have m: "resolveEnterpriseInstallation lib c owner t = (r, t')" using assms True by simp
  have urls: "lookup_urls c kind owner = [url]" using True by (simp add: lookup_urls_def url_def)
  have "t' = t \<and> (\<exists>e. r = Inl (BuildEnterpriseRequest e)) \<or> t' = t @ [q] \<and> r \<noteq> Inl ErrEmptyScope \<and>
    (\<forall>inst. r = Inr inst \<longrightarrow> (\<exists>resp. gl_net lib t q = Inr resp \<and> rs_status resp = 200 \<and>
        gl_installation lib (rs_body resp) = Inr inst))"
    using m unfolding resolveEnterpriseInstallation_def Let_def url_def [symmetric]
    by (auto simp: bind_send map_err_def q_def [symmetric] split: sum.splits if_splits)
  then show ?thesis
  proof (elim disjE conjE exE)
    fix e
    assume "t' = t" "r = Inl (BuildEnterpriseRequest e)"
    then show ?thesis by auto
  next
    assume "t' = t @ [q]" "r \<noteq> Inl ErrEmptyScope" "\<forall>inst. r = Inr inst \<longrightarrow> (\<exists>resp. gl_net lib t q = Inr resp \<and>
      rs_status resp = 200 \<and> gl_installation lib (rs_body resp) = Inr inst)"
    moreover from this True have "\<forall>inst. r = Inr inst \<longrightarrow> found_installation lib kind t [q] inst"
      by (auto simp: found_installation_def)
    moreover have "rq_url q \<in> set (lookup_urls c kind owner)" by (simp add: urls q)
    ultimately show ?thesis using q(1) by (intro exI [of _ "[q]"]) auto
  qed
qed

text \<open>
  The trace of \<open>Mint\<close>, for every network: at most two lookups, then at most one token request, to
  the installation the lookups found, whose permissions cover the request.
\<close>

definition no_token_sent :: "perms \<Rightarrow> request list \<Rightarrow> mint_error + ScopedToken \<Rightarrow> bool" where
  "no_token_sent ps posts r \<longleftrightarrow>
     posts = [] \<and> (\<exists>e. r = Inl e) \<and> (r = Inl ErrEmptyScope \<longrightarrow> gm_lookup (Normalize ps) = Map.empty)"

definition token_sent ::
  "github_lib \<Rightarrow> Client \<Rightarrow> resource list \<Rightarrow> perms \<Rightarrow> request list \<Rightarrow> request list \<Rightarrow> request list \<Rightarrow>
   mint_error + ScopedToken \<Rightarrow> installation \<Rightarrow> bool" where
  "token_sent lib c rs ps t gets posts r inst \<longleftrightarrow>
     found_installation lib (res_kind (hd rs)) t gets inst \<and> Satisfies ps (inst_permissions inst) \<and>
     posts = [token_post c (inst_id inst) (token_repos rs) (Intersect [ps, inst_permissions inst])] \<and>
     gm_lookup (Normalize ps) \<noteq> Map.empty \<and> r \<noteq> Inl ErrEmptyScope"

lemma Mint_spec:
  assumes m: "Mint lib c owner rs ps t = (r, t')" and rs: "rs \<noteq> []" and kind: "kind_ok (res_kind (hd rs))"
  obtains gets posts where "t' = t @ gets @ posts" "length gets \<le> 2"
    "\<forall>q\<in>set gets. is_get q \<and> rq_url q \<in> set (lookup_urls c (res_kind (hd rs)) owner)"
    "no_token_sent ps posts r \<or> (\<exists>inst. token_sent lib c rs ps t gets posts r inst)"
proof -
  let ?k = "res_kind (hd rs)"
  have "bind_io (if ?k = KindEnterprise then resolveEnterpriseInstallation lib c owner
      else resolveInstallation lib owner) (mint_with lib c owner rs ps ?k) t = (r, t')"
    using m rs kind by (auto simp: Mint_def kind_ok_def Let_def split: if_splits)
  then show thesis
  proof (cases rule: bind_io_cases)
    case (err e)
    from resolve_spec [OF err(1)] obtain gets where "t' = t @ gets" "length gets \<le> 2"
      "\<forall>q\<in>set gets. is_get q \<and> rq_url q \<in> set (lookup_urls c ?k owner)" "Inl e \<noteq> (Inl ErrEmptyScope :: mint_error + installation)"
      by blast
    with err(2) show thesis by (intro that [of gets "[]"]) (auto simp: no_token_sent_def)
  next
    case (ok inst t1)
    from resolve_spec [OF ok(1)] obtain gets where gets: "t1 = t @ gets" "length gets \<le> 2"
      "\<forall>q\<in>set gets. is_get q \<and> rq_url q \<in> set (lookup_urls c ?k owner)" "found_installation lib ?k t gets inst"
      by blast
    let ?post = "token_post c (inst_id inst) (token_repos rs) (Intersect [ps, inst_permissions inst])"
    from mint_with_spec [OF ok(2) rs kind] have
      "t' = t1 \<and> no_token_sent ps [] r \<or> t' = t1 @ [?post] \<and> token_sent lib c rs ps t gets [?post] r inst"
      using gets(4) by (auto simp: no_token_sent_def token_sent_def)
    with gets that [of gets "[]"] that [of gets "[?post]"] show thesis by auto
  qed
qed

section \<open>Properties of minting\<close>

text \<open>A network for the witnesses: every owner has installation 7 with \<open>contents: write\<close>.\<close>

definition sample_github :: github_lib where
  "sample_github = \<lparr>
     gl_net = (\<lambda>t q. Inr \<lparr>rs_status = (if rq_method q = ''POST'' then 201 else 200), rs_body = ''''\<rparr>),
     gl_new_request = (\<lambda>url. Inr ()), gl_apps_request = (\<lambda>path. Inr ()),
     gl_apps_check = (\<lambda>resp. Inr (rs_body resp)),
     gl_installation = (\<lambda>body. Inr \<lparr>inst_id = 7, inst_permissions = gm_of [(''contents'', ''write'')]\<rparr>),
     gl_token_response = (\<lambda>body. Inr \<lparr>tr_token = ''ghs'', tr_expires_at = 3600,
       tr_permissions = gm_of [(''contents'', ''read'')], tr_repositories = [''a'']\<rparr>),
     gl_user_id = (\<lambda>body. Inr 99), gl_app_slug = (\<lambda>body. Inr ''broker''),
     gl_installation_ids = (\<lambda>body. Inr [7]),
     gl_manifest = (\<lambda>body. Inr (''broker'', gm_of [(''contents'', ''write'')]))\<rparr>"

definition sample_client :: Client where
  "sample_client = \<lparr>cl_app_id = 1, cl_base_url = defaultBaseURL,
     cl_app_identity = \<lparr>ai_slug = '''', ai_bot_id = 0, ai_name = '''', ai_email = ''''\<rparr>\<rparr>"

definition sample_rs :: "resource list" where
  "sample_rs = [repo_resource ''o'' ''a'']"

lemma sample_rs_kind: "sample_rs \<noteq> []" "kind_ok (res_kind (hd sample_rs))"
  by (simp_all add: sample_rs_def kind_ok_def)

lemma Mint_trace:
  assumes m: "Mint lib c owner rs ps t = (r, t')" and rs: "rs \<noteq> []" and kind: "kind_ok (res_kind (hd rs))"
  shows "\<exists>gets posts. t' = t @ gets @ posts \<and> length gets \<le> 2 \<and> length posts \<le> 1 \<and>
    (\<forall>q\<in>set gets. is_get q \<and> rq_url q \<in> set (lookup_urls c (res_kind (hd rs)) owner)) \<and>
    (\<forall>q\<in>set posts. \<exists>scope. rq_method q = ''POST'' \<and>
       rq_body q = TokenBody (if res_kind (hd rs) = KindRepo then Some (map res_name rs) else None) (Some scope) \<and>
       gm_lookup scope = gm_lookup (Normalize ps) \<and> gm_lookup scope \<noteq> Map.empty) \<and>
    (posts = [] \<longrightarrow> (\<exists>e. r = Inl e))"
proof -
  obtain gets posts where g: "t' = t @ gets @ posts" "length gets \<le> 2"
    "\<forall>q\<in>set gets. is_get q \<and> rq_url q \<in> set (lookup_urls c (res_kind (hd rs)) owner)"
    and sent: "no_token_sent ps posts r \<or> (\<exists>inst. token_sent lib c rs ps t gets posts r inst)"
    by (rule Mint_spec [OF assms])
  from sent have p: "posts = [] \<or> (\<exists>inst :: installation. Satisfies ps (inst_permissions inst) \<and>
        posts = [token_post c (inst_id inst) (token_repos rs) (Intersect [ps, inst_permissions inst])] \<and>
        gm_lookup (Normalize ps) \<noteq> Map.empty)" unfolding no_token_sent_def token_sent_def by blast
  have repos: "omit_list (token_repos rs) = (if res_kind (hd rs) = KindRepo then Some (map res_name rs) else None)"
    using rs by (simp add: omit_list_def token_repos_def)
  have "\<exists>scope. rq_body q = TokenBody (if res_kind (hd rs) = KindRepo then Some (map res_name rs) else None) (Some scope) \<and>
      gm_lookup scope = gm_lookup (Normalize ps) \<and> gm_lookup scope \<noteq> Map.empty \<and> rq_method q = ''POST''"
    if "q \<in> set posts" for q
  proof -
    from p that obtain inst :: installation where sat: "Satisfies ps (inst_permissions inst)" and ne: "gm_lookup (Normalize ps) \<noteq> Map.empty"
      and q: "q = token_post c (inst_id inst) (token_repos rs) (Intersect [ps, inst_permissions inst])" by auto
    note f = Intersect_exact [OF sat]
    have "omit_map (Intersect [ps, inst_permissions inst]) = Some (Intersect [ps, inst_permissions inst])"
      using ne by (simp add: omit_map_def gm_len_0_iff f)
    with f ne show ?thesis by (simp add: q repos)
  qed
  moreover have "length posts \<le> 1" using p by auto
  moreover have "posts = [] \<longrightarrow> (\<exists>e. r = Inl e)" using sent unfolding no_token_sent_def token_sent_def by blast
  ultimately show ?thesis using g by blast
qed

text \<open>C7. For every network, \<open>Mint\<close> sends at most three requests: up to two lookups of the
  installation of the owner, whose paths carry the owner escaped, and after them at most one token
  request. A token request always names permissions, exactly those requested (the normalised
  request), and for repositories exactly the requested repositories; \<open>omitempty\<close> never leaves a
  field out that would make GitHub grant everything. Without a token request the result is an error.\<close>

theorem Mint_requests_exactly:
  assumes m: "Mint lib c owner rs ps t = (r, t')" and rs: "rs \<noteq> []" and kind: "kind_ok (res_kind (hd rs))"
  shows "\<exists>gets posts. t' = t @ gets @ posts \<and> length gets \<le> 2 \<and> length posts \<le> 1 \<and>
    (\<forall>q\<in>set gets. is_get q \<and> rq_url q \<in> set (lookup_urls c (res_kind (hd rs)) owner)) \<and>
    (\<forall>q\<in>set posts. \<exists>scope. rq_method q = ''POST'' \<and>
       rq_body q = TokenBody (if res_kind (hd rs) = KindRepo then Some (map res_name rs) else None) (Some scope) \<and>
       gm_lookup scope = gm_lookup (Normalize ps) \<and> gm_lookup scope \<noteq> Map.empty) \<and>
    (posts = [] \<longrightarrow> (\<exists>e. r = Inl e))"
  by (rule Mint_trace [OF assms])

lemma sample_posts:
  "\<exists>q\<in>set (snd (Mint sample_github sample_client ''o'' sample_rs (gm_of [(''contents'', ''read'')]) [])).
     rq_method q = ''POST''"
proof -
  have "list_ex (\<lambda>q. rq_method q = ''POST'')
    (snd (Mint sample_github sample_client ''o'' sample_rs (gm_of [(''contents'', ''read'')]) []))" by code_simp
  then show ?thesis by (auto simp: list_ex_iff)
qed

theorem Mint_requests_exactly_witness:
  "\<exists>gets post. snd (Mint sample_github sample_client ''o'' sample_rs (gm_of [(''contents'', ''read'')]) []) =
     gets @ [post] \<and> length gets \<le> 2 \<and> (\<exists>scope. rq_body post = TokenBody (Some [''a'']) (Some scope))"
proof -
  obtain r t' where m: "Mint sample_github sample_client ''o'' sample_rs (gm_of [(''contents'', ''read'')]) [] = (r, t')"
    by fastforce
  from Mint_requests_exactly [OF m sample_rs_kind] obtain gets posts where g: "t' = [] @ gets @ posts"
    "length gets \<le> 2" "length posts \<le> 1"
    "\<forall>q\<in>set gets. is_get q \<and> rq_url q \<in> set (lookup_urls sample_client (res_kind (hd sample_rs)) ''o'')"
    and p: "\<forall>q\<in>set posts. \<exists>scope. rq_method q = ''POST'' \<and> rq_body q =
      TokenBody (if res_kind (hd sample_rs) = KindRepo then Some (map res_name sample_rs) else None) (Some scope) \<and>
      gm_lookup scope = gm_lookup (Normalize (gm_of [(''contents'', ''read'')])) \<and> gm_lookup scope \<noteq> Map.empty"
    by blast
  have "posts \<noteq> []" using sample_posts m g(1,4) by (auto simp: is_get_def)
  with g(3) obtain post where post: "posts = [post]" by (cases posts) auto
  with p obtain scope where "rq_body post = TokenBody (Some [''a'']) (Some scope)"
    by (auto simp: sample_rs_def repo_resource_def)
  with g m post show ?thesis by auto
qed

text \<open>C10. A token is only requested from an installation that GitHub named in the answer to the last
  lookup, and only if that installation's permissions cover the requested ones; when they do not,
  nothing but the lookups is sent.\<close>

theorem Mint_within_installation:
  assumes m: "Mint lib c owner rs ps t = (r, t')" and rs: "rs \<noteq> []" and kind: "kind_ok (res_kind (hd rs))"
    and post: "\<exists>q\<in>set (drop (length t) t'). rq_method q = ''POST''"
  shows "\<exists>gets q inst. t' = t @ gets @ [q] \<and> found_installation lib (res_kind (hd rs)) t gets inst \<and>
    rq_url q = cl_base_url c @ ''/app/installations/'' @ dec_int (inst_id inst) @ ''/access_tokens'' \<and>
    (\<forall>k v. gm_lookup (Normalize ps) k = Some v \<longrightarrow> LevelOrd v \<le> level_at (inst_permissions inst) k)"
proof -
  obtain gets posts where g: "t' = t @ gets @ posts" "length gets \<le> 2"
    "\<forall>q\<in>set gets. is_get q \<and> rq_url q \<in> set (lookup_urls c (res_kind (hd rs)) owner)"
    and sent: "no_token_sent ps posts r \<or> (\<exists>inst. token_sent lib c rs ps t gets posts r inst)"
    by (rule Mint_spec [OF m rs kind])
  from sent have p: "posts = [] \<or> (\<exists>inst. found_installation lib (res_kind (hd rs)) t gets inst \<and>
        Satisfies ps (inst_permissions inst) \<and>
        posts = [token_post c (inst_id inst) (token_repos rs) (Intersect [ps, inst_permissions inst])])"
    unfolding no_token_sent_def token_sent_def by blast
  have "posts \<noteq> []" using post g by (auto simp: is_get_def)
  with p obtain inst where i: "found_installation lib (res_kind (hd rs)) t gets inst" "Satisfies ps (inst_permissions inst)"
    "posts = [token_post c (inst_id inst) (token_repos rs) (Intersect [ps, inst_permissions inst])]" by blast
  have "\<forall>k v. gm_lookup (Normalize ps) k = Some v \<longrightarrow> LevelOrd v \<le> level_at (inst_permissions inst) k"
    using i(2) by (auto simp: Satisfies_iff_level dest: level_at_Some) (metis level_at_Some)
  with g i show ?thesis by auto
qed

theorem Mint_within_installation_witness:
  "\<exists>gets inst. found_installation sample_github KindRepo [] gets inst \<and> 1 \<le> level_at (inst_permissions inst) ''contents''"
proof -
  obtain r t' where m: "Mint sample_github sample_client ''o'' sample_rs (gm_of [(''contents'', ''read'')]) [] = (r, t')"
    by fastforce
  have "\<exists>q\<in>set (drop (length []) t'). rq_method q = ''POST''" using sample_posts m by simp
  from Mint_within_installation [OF m sample_rs_kind this] obtain gets inst where
    "found_installation sample_github (res_kind (hd sample_rs)) [] gets inst"
    "\<forall>k v. gm_lookup (Normalize (gm_of [(''contents'', ''read'')])) k = Some v \<longrightarrow> LevelOrd v \<le> level_at (inst_permissions inst) k"
    by blast
  moreover have "gm_lookup (Normalize (gm_of [(''contents'', ''read'')])) ''contents'' = Some ''read'' \<and> LevelOrd ''read'' = 1"
    by code_simp
  ultimately have "found_installation sample_github (res_kind (hd sample_rs)) [] gets inst \<and>
    1 \<le> level_at (inst_permissions inst) ''contents''" by fastforce
  then show ?thesis by (auto simp: sample_rs_def)
qed


text \<open>\<open>ErrEmptyScope\<close> is a last line of defence.\<close>

lemma Mint_empty_scope:
  assumes "Mint lib c owner rs ps t = (Inl ErrEmptyScope, t')"
  shows "gm_lookup (Normalize ps) = Map.empty"
proof -
  have "rs \<noteq> []" "kind_ok (res_kind (hd rs))"
    using assms by (auto simp: Mint_def kind_ok_def Let_def split: if_splits)
  then show ?thesis
    by (rule Mint_spec [OF assms]) (auto simp: no_token_sent_def token_sent_def)
qed

text \<open>
  The requests of a lookup that finds an installation: for an enterprise one request answered with
  200; otherwise the organization's, or the organization's without an answer that decodes and then
  the user's.
\<close>

definition owner_lookup :: "string \<Rightarrow> string \<Rightarrow> request" where
  "owner_lookup path owner =
     apiVersionTransport (get_request Apps (path @ PathEscape owner @ ''/installation'') [])"

definition enterprise_lookup :: "Client \<Rightarrow> string \<Rightarrow> request" where
  "enterprise_lookup c slg =
     apiVersionTransport (get_request AppHTTP (cl_base_url c @ ''/enterprises/'' @ PathEscape slg @ ''/installation'')
       [(''Accept'', ''application/vnd.github+json'')])"

definition lookup_finds ::
  "github_lib \<Rightarrow> Client \<Rightarrow> Kind \<Rightarrow> string \<Rightarrow> request list \<Rightarrow> request list \<Rightarrow> installation \<Rightarrow> bool" where
  "lookup_finds lib c kind owner t gets inst \<longleftrightarrow>
     (if kind = KindEnterprise
      then gets = [enterprise_lookup c owner] \<and>
        (\<exists>resp. gl_net lib t (enterprise_lookup c owner) = Inr resp \<and> rs_status resp = 200 \<and>
           gl_installation lib (rs_body resp) = Inr inst)
      else gets = [owner_lookup ''orgs/'' owner] \<and>
             apps_answer lib (gl_installation lib) t (owner_lookup ''orgs/'' owner) inst \<or>
           gets = [owner_lookup ''orgs/'' owner, owner_lookup ''users/'' owner] \<and>
             (\<nexists>i. apps_answer lib (gl_installation lib) t (owner_lookup ''orgs/'' owner) i) \<and>
             apps_answer lib (gl_installation lib) (t @ [owner_lookup ''orgs/'' owner])
               (owner_lookup ''users/'' owner) inst)"

lemma apps_get_answer:
  assumes "gl_apps_request lib path = Inr u"
  shows "apps_answer lib decode t (apiVersionTransport (get_request Apps path [])) x \<Longrightarrow>
      apps_get lib build err decode path t = (Inr x, t @ [apiVersionTransport (get_request Apps path [])])"
    and "\<nexists>x. apps_answer lib decode t (apiVersionTransport (get_request Apps path [])) x \<Longrightarrow>
      \<exists>e. apps_get lib build err decode path t = (Inl (err e), t @ [apiVersionTransport (get_request Apps path [])])"
  using assms by (auto simp: apps_get_def bind_send apps_answer_def map_err_def split: sum.splits)

lemma resolveInstallation_finds:
  assumes "\<forall>u. gl_apps_request lib u = Inr ()" and "lookup_finds lib c kind owner t gets inst"
    and "kind \<noteq> KindEnterprise"
  shows "resolveInstallation lib owner t = (Inr inst, t @ gets)"
proof -
  have url: "gl_apps_request lib (p @ PathEscape owner @ ''/installation'') = Inr ()" for p using assms(1) by blast
  note get = apps_get_answer [OF url, folded owner_lookup_def]
  from assms(2,3) consider
    (org) "gets = [owner_lookup ''orgs/'' owner]"
      "apps_answer lib (gl_installation lib) t (owner_lookup ''orgs/'' owner) inst"
  | (user) "gets = [owner_lookup ''orgs/'' owner, owner_lookup ''users/'' owner]"
      "\<nexists>i. apps_answer lib (gl_installation lib) t (owner_lookup ''orgs/'' owner) i"
      "apps_answer lib (gl_installation lib) (t @ [owner_lookup ''orgs/'' owner]) (owner_lookup ''users/'' owner) inst"
    by (auto simp: lookup_finds_def)
  then show ?thesis
  proof cases
    case org
    have "apps_get lib BuildInstallationRequest (NoInstallation owner) (gl_installation lib)
        (''orgs/'' @ PathEscape owner @ ''/installation'') t = (Inr inst, t @ gets)"
      unfolding org(1) by (rule get(1) [OF org(2)])
    then show ?thesis by (simp add: resolveInstallation_def Let_def)
  next
    case user
    from get(2) [OF user(2)] obtain e where
      "apps_get lib BuildInstallationRequest (NoInstallation owner) (gl_installation lib)
         (''orgs/'' @ PathEscape owner @ ''/installation'') t =
       (Inl (NoInstallation owner e), t @ [owner_lookup ''orgs/'' owner])" by blast
    moreover have "apps_get lib BuildInstallationRequest (NoInstallation owner) (gl_installation lib)
        (''users/'' @ PathEscape owner @ ''/installation'') (t @ [owner_lookup ''orgs/'' owner]) = (Inr inst, t @ gets)"
      using get(1) [OF user(3)] by (simp only: user(1) append.assoc append.simps)
    ultimately show ?thesis by (simp add: resolveInstallation_def Let_def)
  qed
qed

lemma resolveEnterpriseInstallation_finds:
  assumes "\<forall>u. gl_new_request lib u = Inr ()" and "lookup_finds lib c KindEnterprise owner t gets inst"
  shows "resolveEnterpriseInstallation lib c owner t = (Inr inst, t @ gets)"
  using assms
  by (auto simp: lookup_finds_def resolveEnterpriseInstallation_def Let_def bind_send enterprise_lookup_def)

lemma Mint_resolved:
  assumes build: "\<forall>u. gl_apps_request lib u = Inr () \<and> gl_new_request lib u = Inr ()"
    and found: "lookup_finds lib c (res_kind (hd rs)) owner t gets inst"
    and rs: "rs \<noteq> []" and kind: "kind_ok (res_kind (hd rs))"
  shows "Mint lib c owner rs ps t = mint_with lib c owner rs ps (res_kind (hd rs)) inst (t @ gets)"
proof (cases "res_kind (hd rs) = KindEnterprise")
  case True
  have "resolveEnterpriseInstallation lib c owner t = (Inr inst, t @ gets)"
    by (rule resolveEnterpriseInstallation_finds) (use build found True in auto)
  with rs True show ?thesis by (simp add: Mint_def bind_io_Inr)
next
  case False
  have "resolveInstallation lib owner t = (Inr inst, t @ gets)"
    by (rule resolveInstallation_finds [OF _ found False]) (use build in blast)
  with rs kind False show ?thesis by (auto simp: Mint_def kind_ok_def bind_io_Inr)
qed


lemma sample_lookup:
  assumes "kind_ok kind"
  shows "lookup_finds sample_github sample_client kind owner t
    [if kind = KindEnterprise then enterprise_lookup sample_client owner else owner_lookup ''orgs/'' owner]
    \<lparr>inst_id = 7, inst_permissions = gm_of [(''contents'', ''write'')]\<rparr>"
  by (simp add: lookup_finds_def apps_answer_def sample_github_def owner_lookup_def enterprise_lookup_def
      apiVersionTransport_def get_request_def)

definition sample_minted :: "resource \<Rightarrow> bool" where
  "sample_minted r \<longleftrightarrow> (\<exists>tok t'. Mint sample_github sample_client ''o'' [r] (gm_of [(''contents'', ''read'')]) [] = (Inr tok, t') \<and>
     tok_token tok = ''ghs'' \<and> length t' = 2)"


lemma validate_app_iff:
  "(\<exists>t'. ValidateAppPermissions lib required t = (Inr (), t')) \<longleftrightarrow>
    gm_lookup required = Map.empty \<or>
    (gl_apps_request lib ''app'' = Inr () \<and>
     (\<exists>name actual. apps_answer lib (gl_manifest lib) t (apiVersionTransport (get_request Apps ''app'' [])) (name, actual) \<and>
        Satisfies required actual))"
proof (cases "gm_lookup required = Map.empty")
  case True
  then show ?thesis by (simp add: ValidateAppPermissions_def gm_len_0_iff)
next
  case False
  obtain r t1 where a: "apps_get lib BuildManifest FetchManifest (gl_manifest lib) ''app'' t = (r, t1)" by fastforce
  have "(\<exists>name actual. r = Inr (name, actual) \<and> Satisfies required actual) \<longleftrightarrow>
     gl_apps_request lib ''app'' = Inr () \<and>
     (\<exists>name actual. apps_answer lib (gl_manifest lib) t (apiVersionTransport (get_request Apps ''app'' [])) (name, actual) \<and>
        Satisfies required actual)"
    using a by (auto simp: apps_get_def bind_send apps_answer_def map_err_def split: sum.splits)
  moreover have "(\<exists>t'. ValidateAppPermissions lib required t = (Inr (), t')) \<longleftrightarrow>
      (\<exists>name actual. r = Inr (name, actual) \<and> Satisfies required actual)"
    using False by (cases r)
      (auto simp: ValidateAppPermissions_def gm_len_0_iff bind_io_def a Gaps_None_iff [symmetric] split: option.splits)
  ultimately show ?thesis using False by blast
qed

lemma validate_app_trace:
  "snd (ValidateAppPermissions lib required t) = t \<or>
   snd (ValidateAppPermissions lib required t) = t @ [apiVersionTransport (get_request Apps ''app'' [])]"
proof (cases "gm_lookup required = Map.empty")
  case True
  then show ?thesis by (simp add: ValidateAppPermissions_def gm_len_0_iff)
next
  case False
  obtain r t1 where a: "apps_get lib BuildManifest FetchManifest (gl_manifest lib) ''app'' t = (r, t1)" by fastforce
  have "snd (ValidateAppPermissions lib required t) = t1"
    using False by (auto simp: ValidateAppPermissions_def gm_len_0_iff bind_io_def a split: sum.splits option.splits)
  with apps_get_spec [OF a] show ?thesis by auto
qed

text \<open>\<open>ValidateAppPermissions\<close> succeeds exactly when nothing is required or GitHub's description
  of the App arrives and the App's permissions satisfy all required ones; it sends at most one
  request, a GET.\<close>

theorem ValidateAppPermissions_iff:
  "((\<exists>t'. ValidateAppPermissions lib required t = (Inr (), t')) \<longleftrightarrow>
    gm_lookup required = Map.empty \<or>
    (gl_apps_request lib ''app'' = Inr () \<and>
     (\<exists>name actual. apps_answer lib (gl_manifest lib) t (apiVersionTransport (get_request Apps ''app'' [])) (name, actual) \<and>
        Satisfies required actual))) \<and>
   snd (ValidateAppPermissions lib required t) \<in> {t, t @ [apiVersionTransport (get_request Apps ''app'' [])]}"
  using validate_app_iff [of lib required t] validate_app_trace [of lib required t] by blast

lemma identityToken_spec:
  assumes "identityToken lib c t = (r, t')"
  shows "\<exists>new. t' = t @ new \<and> length new \<le> 2 \<and> (\<forall>q\<in>set new. is_get q \<or>
    rq_body q = TokenBody None (Some (gm_of [(''metadata'', ''read'')])))"
proof -
  let ?m = "gm_of [(''metadata'', ''read'')]"
  obtain r1 t1 where a: "apps_get lib ListInstallations ListInstallations (gl_installation_ids lib)
       ''app/installations?per_page=1'' t = (r1, t1)" by fastforce
  from apps_get_spec [OF a] obtain new where new: "t1 = t @ new" "length new \<le> 1" "\<forall>q\<in>set new. is_get q" by auto
  have body: "omit_list [] = (None :: string list option)" "omit_map ?m = Some ?m"
    by (simp_all add: omit_list_def omit_map_def gm_len_0_iff gm_lookup_of fun_eq_iff)
  show ?thesis
  proof (cases "\<exists>ids. r1 = Inr ids \<and> ids \<noteq> []")
    case True
    then obtain ids where ids: "r1 = Inr ids" "ids \<noteq> []" by blast
    obtain r2 t2 where m: "MintInstallationToken lib c (hd ids) ?m t1 = (r2, t2)" by fastforce
    have "t' = t2"
      using assms ids by (auto simp: identityToken_def bind_io_def a m split: sum.splits)
    with MintInstallationToken_spec [OF m] new show ?thesis
      by (auto simp: is_get_def body)
  next
    case False
    then have "t' = t1" using assms by (auto simp: identityToken_def bind_io_def a split: sum.splits if_splits)
    with new show ?thesis by (auto simp: is_get_def)
  qed
qed

lemma fetch_bot_user_spec:
  assumes "fetch_bot_user lib c slg token t = (r, t')"
  shows "t' = t \<and> (\<exists>e. r = Inl e) \<or> (\<exists>q. t' = t @ [q] \<and> is_get q \<and> rq_client q = Public)"
proof -
  define url where "url = cl_base_url c @ ''/users/'' @ slg @ ''%5Bbot%5D''"
  define req where "req = get_request Public url
      [(''Accept'', ''application/vnd.github+json''), (''Authorization'', ''Bearer '' @ token)]"
  have "is_get (apiVersionTransport req) \<and> rq_client (apiVersionTransport req) = Public" by (simp add: req_def)
  moreover have "t' = t \<and> (\<exists>e. r = Inl e) \<or> t' = t @ [apiVersionTransport req]"
    using assms unfolding fetch_bot_user_def url_def [symmetric] Let_def req_def [symmetric]
    by (auto simp: bind_send split: sum.splits if_splits)
  ultimately show ?thesis by blast
qed

text \<open>The token \<open>FetchAppIdentity\<close> mints for its lookup can do nothing but read metadata: it sends
  at most four requests, and the only body any of them has asks for \<open>metadata: read\<close>.\<close>

lemma FetchAppIdentity_requests:
  "\<exists>new. snd (FetchAppIdentity lib c t) = t @ new \<and> length new \<le> 4 \<and>
    list_all (\<lambda>q. rq_method q = ''GET'' \<or> rq_body q = TokenBody None (Some (gm_of [(''metadata'', ''read'')]))) new"
proof -
  obtain r1 t1 where a: "apps_get lib FetchApp FetchApp (gl_app_slug lib) ''app'' t = (r1, t1)" by fastforce
  from apps_get_spec [OF a] obtain new where new: "t1 = t @ new" "length new \<le> 1" "\<forall>q\<in>set new. is_get q" by auto
  show ?thesis
  proof (cases r1)
    case (Inl e)
    with new show ?thesis by (auto simp: FetchAppIdentity_def bind_io_def a is_get_def list_all_iff)
  next
    case (Inr slg)
    obtain r2 t2 where b: "identityToken lib c t1 = (r2, t2)" by fastforce
    from identityToken_spec [OF b] obtain new2 where new2: "t2 = t1 @ new2" "length new2 \<le> 2"
      "\<forall>q\<in>set new2. is_get q \<or> rq_body q = TokenBody None (Some (gm_of [(''metadata'', ''read'')]))" by blast
    have "\<exists>new3. snd (FetchAppIdentity lib c t) = t2 @ new3 \<and> length new3 \<le> 1 \<and> (\<forall>q\<in>set new3. is_get q)"
    proof (cases r2)
      case (Inl e)
      then show ?thesis by (simp add: FetchAppIdentity_def bind_io_def a Inr b)
    next
      case r2: (Inr token)
      then have "FetchAppIdentity lib c t = fetch_bot_user lib c slg token t2"
        by (simp add: FetchAppIdentity_def bind_io_def a Inr b)
      then show ?thesis
        using fetch_bot_user_spec [of lib c slg token t2 "fst (FetchAppIdentity lib c t)" "snd (FetchAppIdentity lib c t)"]
        by fastforce
    qed
    then obtain new3 where "snd (FetchAppIdentity lib c t) = t2 @ new3" "length new3 \<le> 1" "\<forall>q\<in>set new3. is_get q"
      by blast
    with new new2 show ?thesis
      by (intro exI [of _ "new @ new2 @ new3"]) (auto simp: is_get_def list_all_iff)
  qed
qed


section \<open>The interface the token endpoint relies on\<close>

text \<open>
  What the endpoint needs of its \<open>Minter\<close>: without resources nothing is minted and nothing happens,
  and the error for an empty scope means that no requested permission is canonical.
\<close>

locale minter =
  fixes mint :: "string \<Rightarrow> resource list \<Rightarrow> perms \<Rightarrow> 'w \<Rightarrow> (mint_error + ScopedToken) \<times> 'w"
  assumes fails_closed: "mint owner rs ps w = (Inl ErrEmptyScope, w') \<Longrightarrow> gm_lookup (Normalize ps) = Map.empty"
    and needs_resources: "\<exists>e. mint owner [] ps w = (Inl e, w)"
begin

lemma no_empty_scope: "gm_lookup (Normalize ps) \<noteq> Map.empty \<Longrightarrow> fst (mint owner rs ps w) \<noteq> Inl ErrEmptyScope"
  using fails_closed [of owner rs ps w "snd (mint owner rs ps w)"] by (cases "mint owner rs ps w") auto

end

interpretation gh: minter "Mint lib c" for lib c
  by unfold_locales (auto simp: Mint_def intro: Mint_empty_scope)

end
