(* ===== verification/Audit_Log.thy ===== *)
theory Audit_Log
  imports Perm Go_Time
begin

text \<open>
  The package \<open>internal/audit\<close>: the audit event of a token request and the attributes of the
  one log line \<open>Log\<close> emits for it. A \<open>map[string]any\<close> of the source holds a list of strings or
  a permission map; \<^const>\<open>None\<close> is the \<open>nil\<close> map.
\<close>

datatype any = AnyList "string list" | AnyPerms perms

definition DecisionAllow :: string where "DecisionAllow = ''allow''"
definition DecisionDeny :: string where "DecisionDeny = ''deny''"

record Event =
  ev_operation :: string
  ev_decision :: string
  ev_issuer :: string
  ev_issuer_url :: string
  ev_subject :: string
  ev_token_id :: string
  ev_issued_at :: time
  ev_expiry :: time
  ev_caller :: "string gomap"
  ev_audit_claims :: "string gomap"
  ev_matched_policies :: "string list"
  ev_skipped_policies :: "string list"
  ev_requested_scope :: "any gomap option"
  ev_computed_scope :: "any gomap option"
  ev_token_issued :: bool
  ev_reason :: string

datatype attr = AStr string | ATime time | AMap "string gomap" | AStrs "string list" | ABool bool
  | AScope "any gomap"

definition log_attrs :: "Event \<Rightarrow> (string \<times> attr) list" where
  "log_attrs ev =
     [(''operation'', AStr (ev_operation ev)),
      (''decision'', AStr (ev_decision ev)),
      (''issuer'', AStr (ev_issuer ev)),
      (''issuer_url'', AStr (ev_issuer_url ev)),
      (''subject'', AStr (ev_subject ev)),
      (''issued_at'', ATime (ev_issued_at ev)),
      (''expiry'', ATime (ev_expiry ev)),
      (''caller'', AMap (ev_caller ev)),
      (''matched_policies'', AStrs (ev_matched_policies ev)),
      (''skipped_policies'', AStrs (ev_skipped_policies ev)),
      (''token_issued'', ABool (ev_token_issued ev))] @
     (if ev_token_id ev \<noteq> '''' then [(''token_id'', AStr (ev_token_id ev))] else []) @
     (if gm_len (ev_audit_claims ev) > 0 then [(''audit_claims'', AMap (ev_audit_claims ev))] else []) @
     (case ev_requested_scope ev of None \<Rightarrow> [] | Some m \<Rightarrow> [(''requested_scope'', AScope m)]) @
     (case ev_computed_scope ev of None \<Rightarrow> [] | Some m \<Rightarrow> [(''computed_scope'', AScope m)]) @
     (if ev_reason ev \<noteq> '''' then [(''reason'', AStr (ev_reason ev))] else [])"

lemma gm_len_0_empty: "gm_len m = 0 \<longleftrightarrow> m = gm_empty"
  unfolding gm_len_def by (metis gm_entries_empty impl_of_inject length_0_conv)

lemma gm_len_pos_iff: "0 < gm_len m \<longleftrightarrow> m \<noteq> gm_empty"
  using gm_len_0_empty [of m] by auto

text \<open>The attributes by name.\<close>

lemma log_attrs_lookup:
  "map_of (log_attrs ev) ''operation'' = Some (AStr (ev_operation ev))"
  "map_of (log_attrs ev) ''decision'' = Some (AStr (ev_decision ev))"
  "map_of (log_attrs ev) ''issuer'' = Some (AStr (ev_issuer ev))"
  "map_of (log_attrs ev) ''issuer_url'' = Some (AStr (ev_issuer_url ev))"
  "map_of (log_attrs ev) ''subject'' = Some (AStr (ev_subject ev))"
  "map_of (log_attrs ev) ''issued_at'' = Some (ATime (ev_issued_at ev))"
  "map_of (log_attrs ev) ''expiry'' = Some (ATime (ev_expiry ev))"
  "map_of (log_attrs ev) ''caller'' = Some (AMap (ev_caller ev))"
  "map_of (log_attrs ev) ''matched_policies'' = Some (AStrs (ev_matched_policies ev))"
  "map_of (log_attrs ev) ''skipped_policies'' = Some (AStrs (ev_skipped_policies ev))"
  "map_of (log_attrs ev) ''token_issued'' = Some (ABool (ev_token_issued ev))"
  "map_of (log_attrs ev) ''token_id'' = (if ev_token_id ev = '''' then None else Some (AStr (ev_token_id ev)))"
  "map_of (log_attrs ev) ''audit_claims'' =
    (if ev_audit_claims ev = gm_empty then None else Some (AMap (ev_audit_claims ev)))"
  "map_of (log_attrs ev) ''requested_scope'' = map_option AScope (ev_requested_scope ev)"
  "map_of (log_attrs ev) ''computed_scope'' = map_option AScope (ev_computed_scope ev)"
  "map_of (log_attrs ev) ''reason'' = (if ev_reason ev = '''' then None else Some (AStr (ev_reason ev)))"
  by (simp_all add: log_attrs_def gm_len_pos_iff split: option.splits)

lemma log_attrs_inj:
  assumes eq: "log_attrs ev = log_attrs ev'"
  shows "ev = ev'"
proof -
  have look: "map_of (log_attrs ev) k = map_of (log_attrs ev') k" for k using eq by simp
  have inj: "map_option AScope x = map_option AScope y \<longleftrightarrow> x = y" for x y
    by (cases x; cases y) auto
  have "ev_token_id ev = ev_token_id ev'" "ev_reason ev = ev_reason ev'" "ev_audit_claims ev = ev_audit_claims ev'"
    using look [of "''token_id''"] look [of "''reason''"] look [of "''audit_claims''"]
    unfolding log_attrs_lookup by (auto split: if_splits)
  moreover have "ev_requested_scope ev = ev_requested_scope ev'" "ev_computed_scope ev = ev_computed_scope ev'"
    using look [of "''requested_scope''"] look [of "''computed_scope''"] unfolding log_attrs_lookup inj .
  moreover have "ev_operation ev = ev_operation ev'"
    using look [of "''operation''"] by (simp only: log_attrs_lookup option.inject attr.inject)
  moreover have "ev_decision ev = ev_decision ev'"
    using look [of "''decision''"] by (simp only: log_attrs_lookup option.inject attr.inject)
  moreover have "ev_issuer ev = ev_issuer ev'"
    using look [of "''issuer''"] by (simp only: log_attrs_lookup option.inject attr.inject)
  moreover have "ev_issuer_url ev = ev_issuer_url ev'"
    using look [of "''issuer_url''"] by (simp only: log_attrs_lookup option.inject attr.inject)
  moreover have "ev_subject ev = ev_subject ev'"
    using look [of "''subject''"] by (simp only: log_attrs_lookup option.inject attr.inject)
  moreover have "ev_issued_at ev = ev_issued_at ev'"
    using look [of "''issued_at''"] by (simp only: log_attrs_lookup option.inject attr.inject)
  moreover have "ev_expiry ev = ev_expiry ev'"
    using look [of "''expiry''"] by (simp only: log_attrs_lookup option.inject attr.inject)
  moreover have "ev_caller ev = ev_caller ev'"
    using look [of "''caller''"] by (simp only: log_attrs_lookup option.inject attr.inject)
  moreover have "ev_matched_policies ev = ev_matched_policies ev'"
    using look [of "''matched_policies''"] by (simp only: log_attrs_lookup option.inject attr.inject)
  moreover have "ev_skipped_policies ev = ev_skipped_policies ev'"
    using look [of "''skipped_policies''"] by (simp only: log_attrs_lookup option.inject attr.inject)
  moreover have "ev_token_issued ev = ev_token_issued ev'"
    using look [of "''token_issued''"] by (simp only: log_attrs_lookup option.inject attr.inject)
  ultimately show ?thesis by (intro Event.equality) simp_all
qed

text \<open>C40. An audit line loses nothing: its attributes have distinct names and two events that produce the
  same line are the same event, although empty optional fields are left out.\<close>

theorem log_attrs_faithful:
  "distinct (map fst (log_attrs ev)) \<and> (log_attrs ev = log_attrs ev' \<longleftrightarrow> ev = ev')"
proof
  show "distinct (map fst (log_attrs ev))" by (simp add: log_attrs_def split: option.split)
  show "log_attrs ev = log_attrs ev' \<longleftrightarrow> ev = ev'" using log_attrs_inj by blast
qed

end
