(* ===== verification/Server.thy ===== *)
theory Server
  imports Auth Policy_Engine Githubapp Audit_Log Go_Fields
begin

text \<open>
  The package \<open>internal/server\<close>: the token-exchange endpoint with its checks in order, the scope
  strings, the audit events and the other routes.

  The interfaces \<open>Authenticator\<close> and \<open>Minter\<close> of the source are fields of the record
  \<open>Server\<close>; what the endpoint relies on is stated by the locales \<open>authenticator\<close> and \<open>minter\<close>,
  interpreted on the operations of \<open>Auth\<close> and \<open>Githubapp\<close>. The minter threads a world (for the
  real one, the requests sent to GitHub). A handler returns its response, the audit events in
  order, the log lines and the world. Parameters: \<open>mime.ParseMediaType\<close> and \<open>url.ParseQuery\<close>.
\<close>

section \<open>Data\<close>

definition maxBodyBytes :: nat where "maxBodyBytes = 2 ^ 20"

definition grantTypeTokenExchange :: string where
  "grantTypeTokenExchange = ''urn:ietf:params:oauth:grant-type:token-exchange''"
definition tokenTypeAccessToken :: string where
  "tokenTypeAccessToken = ''urn:ietf:params:oauth:token-type:access_token''"
definition tokenTypeIDToken :: string where
  "tokenTypeIDToken = ''urn:ietf:params:oauth:token-type:id_token''"

definition errInvalidRequest :: string where "errInvalidRequest = ''invalid_request''"
definition errUnsupportedGrant :: string where "errUnsupportedGrant = ''unsupported_grant_type''"
definition errInvalidGrant :: string where "errInvalidGrant = ''invalid_grant''"
definition errInvalidScope :: string where "errInvalidScope = ''invalid_scope''"
definition errInvalidTarget :: string where "errInvalidTarget = ''invalid_target''"
definition errServerError :: string where "errServerError = ''server_error''"

record http_lib =
  hl_parse_media :: "string \<Rightarrow> string option"
  hl_parse_query :: "string \<Rightarrow> string list gomap option"

record http_request =
  hr_method :: string
  hr_path :: string
  hr_query :: string
  hr_content_type :: string
  hr_body :: string

record tokenExchangeResponse =
  te_access_token :: string
  te_issued_token_type :: string
  te_token_type :: string
  te_expires_in :: int
  te_scope :: string
  te_app_name :: string
  te_app_email :: string

datatype description = Text string | TargetText resource_error | CapText nat int

datatype json_val = JText string | JTexts "string list"

datatype reply =
    OAuthError string description
  | TokenReply tokenExchangeResponse
  | Document "(string \<times> json_val) list"
  | OpenAPI
  | Plain string
  | Aborted

record http_reply =
  re_status :: nat
  re_headers :: "(string \<times> string) list"
  re_body :: reply

datatype log_line =
    AuthenticationFailed auth_error
  | PolicyError string string string
  | MintToken mint_error

type_synonym 'w mint_fun = "string \<Rightarrow> resource list \<Rightarrow> perms \<Rightarrow> 'w \<Rightarrow> (mint_error + ScopedToken) \<times> 'w"
type_synonym auth_fun = "time \<Rightarrow> string \<Rightarrow> auth_error + Identity"

record ('p, 'w) Server =
  sv_auth :: auth_fun
  sv_engine :: "'p Engine"
  sv_eval :: "'p cel_eval"
  sv_minter :: "'w mint_fun"
  sv_issuer :: string
  sv_metadata :: "(string \<times> json_val) list"
  sv_app_identity :: AppIdentity

record 'w outcome =
  oc_reply :: http_reply
  oc_audit :: "Event list"
  oc_log :: "log_line list"
  oc_world :: 'w

definition buildMetadataJSON :: "string \<Rightarrow> (string \<times> json_val) list" where
  "buildMetadataJSON issuer =
     [(''issuer'', JText issuer),
      (''token_endpoint'', JText (issuer @ ''/token'')),
      (''grant_types_supported'', JTexts [grantTypeTokenExchange]),
      (''token_endpoint_auth_methods_supported'', JTexts [''none''])]"

definition new_server ::
  "auth_fun \<Rightarrow> 'p Engine \<Rightarrow> 'p cel_eval \<Rightarrow> 'w mint_fun \<Rightarrow> string \<Rightarrow> AppIdentity \<Rightarrow> ('p, 'w) Server" where
  "new_server authn engine eval mint issuer appIdentity =
     \<lparr>sv_auth = authn, sv_engine = engine, sv_eval = eval, sv_minter = mint, sv_issuer = issuer,
      sv_metadata = buildMetadataJSON issuer, sv_app_identity = appIdentity\<rparr>"

section \<open>Scope strings\<close>

text \<open>The loop over the fields; \<^const>\<open>None\<close> is the result \<open>(nil, false)\<close>.\<close>

fun decode_fields :: "perms \<Rightarrow> string list \<Rightarrow> perms option" where
  "decode_fields perms [] = Some perms"
| "decode_fields perms (tok # toks) =
     (case last_index_of (CHR '':'') tok of
        None \<Rightarrow> None
      | Some idx \<Rightarrow>
          if idx = 0 \<or> idx = length tok - 1 then None
          else
            (let key = take idx tok; level = drop (idx + 1) tok in
             if \<not> ValidKeyLevel key level then None
             else decode_fields (gm_put key level perms) toks))"

definition decodeScope :: "string \<Rightarrow> perms option" where
  "decodeScope scope =
     (let fields = Fields scope in
      if length fields = 0 then None else decode_fields gm_empty fields)"

definition encodeScope :: "perms \<Rightarrow> string" where
  "encodeScope perms =
     (let keys = sort (gm_keys perms);
          tokens = map (\<lambda>k. k @ '':'' @ (case gm_lookup perms k of None \<Rightarrow> '''' | Some l \<Rightarrow> l)) keys
      in join_with '' '' tokens)"

definition scopeEqual :: "perms \<Rightarrow> perms \<Rightarrow> bool" where
  "scopeEqual a b =
     (if gm_len a \<noteq> gm_len b then False
      else list_all (\<lambda>(k, v). \<not> (case gm_lookup b k of None \<Rightarrow> '''' | Some w \<Rightarrow> w) \<noteq> v) (gm_entries a))"

section \<open>Replies and audit events\<close>

definition writeJSON :: "nat \<Rightarrow> reply \<Rightarrow> http_reply" where
  "writeJSON status v = \<lparr>re_status = status,
     re_headers = [(''Content-Type'', ''application/json''), (''Cache-Control'', ''no-store'')], re_body = v\<rparr>"

definition writeOAuthError :: "nat \<Rightarrow> string \<Rightarrow> description \<Rightarrow> http_reply" where
  "writeOAuthError status code desc = writeJSON status (OAuthError code desc)"

text \<open>
  A handler that panics: \<open>net/http\<close> recovers and closes the connection without an answer. Only the
  indexing in \<open>Owner\<close> could panic, and \<open>ParseAll\<close> never returns an empty list.
\<close>

definition aborted :: http_reply where
  "aborted = \<lparr>re_status = 0, re_headers = [], re_body = Aborted\<rparr>"

definition denyReason :: "Decision \<Rightarrow> string" where
  "denyReason decision =
     (let reason = (if length (d_matched decision) = 0 then ''no matching policies''
            else ''combined policy permissions do not cover requested scope'')
      in if length (d_uncovered decision) > 0
         then reason @ '' for resources: '' @ join_with '', '' (d_uncovered decision) else reason)"

definition requested_scope :: "resource list \<Rightarrow> perms \<Rightarrow> any gomap" where
  "requested_scope resources perms =
     gm_of [(''resources'', AnyList (RawStrings resources)), (''permissions'', AnyPerms perms)]"

definition audit_event :: "string \<Rightarrow> string \<Rightarrow> Identity \<Rightarrow> resource list \<Rightarrow> perms \<Rightarrow> Decision \<Rightarrow> Event" where
  "audit_event op verdict ident resources perms decision =
     \<lparr>ev_operation = op, ev_decision = verdict, ev_issuer = id_issuer ident, ev_issuer_url = id_issuer_url ident,
      ev_subject = id_subject ident, ev_token_id = id_token_id ident, ev_issued_at = id_issued_at ident,
      ev_expiry = id_expiry ident, ev_caller = id_claims ident, ev_audit_claims = id_audit_claims ident,
      ev_matched_policies = d_matched decision, ev_skipped_policies = d_skipped decision,
      ev_requested_scope = Some (requested_scope resources perms), ev_computed_scope = None,
      ev_token_issued = False, ev_reason = ''''\<rparr>"

definition auditDeny :: "string \<Rightarrow> Identity \<Rightarrow> resource list \<Rightarrow> perms \<Rightarrow> Decision \<Rightarrow> string \<Rightarrow> Event" where
  "auditDeny op ident resources perms decision reason =
     (audit_event op DecisionDeny ident resources perms decision)\<lparr>ev_reason := reason\<rparr>"

definition audit_allow :: "Identity \<Rightarrow> resource list \<Rightarrow> perms \<Rightarrow> Decision \<Rightarrow> ScopedToken \<Rightarrow> Event" where
  "audit_allow ident resources perms decision token =
     (audit_event ''token'' DecisionAllow ident resources perms decision)
       \<lparr>ev_computed_scope := Some (gm_of [(''repositories'', AnyList (tok_repositories token)),
          (''permissions'', AnyPerms (tok_permissions token))]),
        ev_token_issued := True\<rparr>"

text \<open>
  \<open>int64(time.Until(t).Seconds())\<close>: the conversion truncates toward zero. The float64 quotient is
  the exact one up to 2^53 nanoseconds, about 104 days; installation tokens live an hour.
\<close>

definition expires_in :: "time \<Rightarrow> time \<Rightarrow> int" where
  "expires_in now expires = (let d = time_sub expires now in sgn d * (\<bar>d\<bar> div Second))"

definition token_response :: "('p, 'w) Server \<Rightarrow> time \<Rightarrow> perms \<Rightarrow> ScopedToken \<Rightarrow> tokenExchangeResponse" where
  "token_response sv later perms token =
     \<lparr>te_access_token = tok_token token, te_issued_token_type = tokenTypeAccessToken,
      te_token_type = ''bearer'', te_expires_in = expires_in later (tok_expires_at token),
      te_scope = (if \<not> scopeEqual perms (tok_permissions token) then encodeScope (tok_permissions token) else ''''),
      te_app_name = ai_name (sv_app_identity sv), te_app_email = ai_email (sv_app_identity sv)\<rparr>"

section \<open>The token endpoint\<close>

text \<open>\<open>Form.Get\<close>: the first value of a key, or the empty string.\<close>

definition form_get :: "string list gomap \<Rightarrow> string \<Rightarrow> string" where
  "form_get form k = (case gm_lookup form k of Some (v # _) \<Rightarrow> v | _ \<Rightarrow> '''')"

definition form_all :: "string list gomap \<Rightarrow> string \<Rightarrow> string list" where
  "form_all form k = (case gm_lookup form k of None \<Rightarrow> [] | Some vs \<Rightarrow> vs)"

text \<open>
  \<open>ParseForm\<close> on a body limited by \<open>MaxBytesReader\<close>: it fails when the body is too large or
  when the body or the query string of the URL is malformed.
\<close>

definition parse_form :: "http_lib \<Rightarrow> http_request \<Rightarrow> string list gomap option" where
  "parse_form hl req =
     (if length (hr_body req) > maxBodyBytes then None
      else case hl_parse_query hl (hr_body req) of
        None \<Rightarrow> None
      | Some form \<Rightarrow> (case hl_parse_query hl (hr_query req) of None \<Rightarrow> None | Some _ \<Rightarrow> Some form))"

text \<open>The checks on the form before the token is looked at: the error to answer, or the token.\<close>

definition check_form :: "string list gomap \<Rightarrow> (string \<times> string) + string" where
  "check_form form =
     (let grantType = form_get form ''grant_type'';
          subjectToken = form_get form ''subject_token'';
          subjectTokenType = form_get form ''subject_token_type'';
          requestedType = form_get form ''requested_token_type'' in
      if grantType = '''' then Inl (errInvalidRequest, ''grant_type is required'')
      else if grantType \<noteq> grantTypeTokenExchange
      then Inl (errUnsupportedGrant, ''only '' @ grantTypeTokenExchange @ '' is supported'')
      else if form_get form ''actor_token'' \<noteq> '''' \<or> form_get form ''actor_token_type'' \<noteq> ''''
      then Inl (errInvalidRequest, ''actor_token delegation is not supported'')
      else if subjectToken = '''' \<or> subjectTokenType = ''''
      then Inl (errInvalidRequest, ''subject_token and subject_token_type are required'')
      else if subjectTokenType \<noteq> tokenTypeIDToken
      then Inl (errInvalidRequest, ''subject_token_type must be '' @ tokenTypeIDToken)
      else if requestedType \<noteq> '''' \<and> requestedType \<noteq> tokenTypeAccessToken
      then Inl (errInvalidRequest, ''requested_token_type must be '' @ tokenTypeAccessToken)
      else Inr subjectToken)"

definition policy_logs :: "(string \<times> string \<times> string) list \<Rightarrow> log_line list" where
  "policy_logs entries = map (\<lambda>(p, r, e). PolicyError p r e) entries"

definition bad_request :: "string \<Rightarrow> description \<Rightarrow> Event list \<Rightarrow> log_line list \<Rightarrow> 'w \<Rightarrow> 'w outcome" where
  "bad_request code desc events logs w =
     \<lparr>oc_reply = writeOAuthError 400 code desc, oc_audit = events, oc_log = logs, oc_world = w\<rparr>"

text \<open>
  From the minted or refused token to the reply. The clock is read twice: \<open>now\<close> when the subject
  token is checked, \<open>later\<close> when the answer is written.
\<close>

definition finish ::
  "('p, 'w) Server \<Rightarrow> time \<Rightarrow> Identity \<Rightarrow> resource list \<Rightarrow> perms \<Rightarrow> Decision \<Rightarrow> log_line list \<Rightarrow>
   (mint_error + ScopedToken) \<times> 'w \<Rightarrow> 'w outcome" where
  "finish sv later ident resources perms decision logs = (\<lambda>(res, w).
     case res of
       Inl ErrEmptyScope \<Rightarrow>
         bad_request errInvalidGrant (Text ''forbidden by policy'')
           [auditDeny ''token'' ident resources perms decision ''empty computed scope''] logs w
     | Inl (ErrInsufficientScope msg) \<Rightarrow>
         bad_request errInvalidScope (Text ''requested scope exceeds installation permissions'')
           [auditDeny ''token'' ident resources perms decision ''installation permissions insufficient''] logs w
     | Inl err \<Rightarrow>
         \<lparr>oc_reply = writeOAuthError 502 errServerError (Text ''upstream error''), oc_audit = [],
          oc_log = logs @ [MintToken err], oc_world = w\<rparr>
     | Inr token \<Rightarrow>
         \<lparr>oc_reply = writeJSON 200 (TokenReply (token_response sv later perms token)),
          oc_audit = [audit_allow ident resources perms decision token],
          oc_log = logs, oc_world = w\<rparr>)"

text \<open>The request from the verified identity on.\<close>

definition exchange ::
  "('p, 'w) Server \<Rightarrow> time \<Rightarrow> Identity \<Rightarrow> string list gomap \<Rightarrow> 'w \<Rightarrow> 'w outcome" where
  "exchange sv later ident form w =
     (case ParseAll (form_all form ''resource'') of
        Inl err \<Rightarrow> bad_request errInvalidTarget (TargetText err) [] [] w
      | Inr resources \<Rightarrow>
          (case Owner resources of
             None \<Rightarrow> \<lparr>oc_reply = aborted, oc_audit = [], oc_log = [], oc_world = w\<rparr>
           | Some owner \<Rightarrow>
               (case decodeScope (form_get form ''scope'') of
                  None \<Rightarrow> bad_request errInvalidScope
                    (Text ''scope must be a space-delimited list of permission:level tokens'') [] [] w
                | Some perms \<Rightarrow>
                    (case Evaluate (sv_eval sv) (sv_engine sv)
                       \<lparr>in_issuer = id_issuer ident, in_caller = id_claims ident,
                        in_request = \<lparr>req_resource = '''', req_resources = RawStrings resources\<rparr>\<rparr> perms of
                       (Inl (n, cap), logs) \<Rightarrow>
                         bad_request errInvalidRequest (CapText n cap) [] (policy_logs logs) w
                     | (Inr decision, logs) \<Rightarrow>
                         if \<not> d_allowed decision then
                           bad_request errInvalidGrant (Text ''forbidden by policy'')
                             [auditDeny ''token'' ident resources perms decision (denyReason decision)]
                             (policy_logs logs) w
                         else finish sv later ident resources perms decision (policy_logs logs)
                           (sv_minter sv owner resources perms w)))))"

definition handleToken ::
  "http_lib \<Rightarrow> ('p, 'w) Server \<Rightarrow> time \<Rightarrow> time \<Rightarrow> http_request \<Rightarrow> 'w \<Rightarrow> 'w outcome" where
  "handleToken hl sv now later req w =
     (if hl_parse_media hl (hr_content_type req) \<noteq> Some ''application/x-www-form-urlencoded''
      then bad_request errInvalidRequest (Text ''Content-Type must be application/x-www-form-urlencoded'') [] [] w
      else case parse_form hl req of
        None \<Rightarrow> bad_request errInvalidRequest (Text ''malformed request body'') [] [] w
      | Some form \<Rightarrow>
          (case check_form form of
             Inl (code, desc) \<Rightarrow> bad_request code (Text desc) [] [] w
           | Inr subjectToken \<Rightarrow>
               (case sv_auth sv now subjectToken of
                  Inl err \<Rightarrow> bad_request errInvalidGrant (Text ''subject_token verification failed'')
                    [] [AuthenticationFailed err] w
                | Inr ident \<Rightarrow> exchange sv later ident form w)))"

section \<open>The other routes\<close>

definition handleMetadata :: "('p, 'w) Server \<Rightarrow> http_reply" where
  "handleMetadata sv = \<lparr>re_status = 200, re_headers = [(''Content-Type'', ''application/json'')],
     re_body = Document (sv_metadata sv)\<rparr>"

text \<open>
  The routes of the mux: a \<open>GET\<close> pattern also serves \<open>HEAD\<close>; a known path with another method is
  answered 405, any other path 404, by \<open>net/http\<close>. (A path with empty or dot segments, which
  \<open>net/http\<close> redirects to the cleaned path before it looks for a route, is answered 404 here.)
\<close>

definition get_routes :: "string list" where
  "get_routes = [''/.well-known/oauth-authorization-server'', ''/.well-known/openid-configuration'',
     ''/healthz'', ''/openapi.json'']"

definition Handler ::
  "http_lib \<Rightarrow> ('p, 'w) Server \<Rightarrow> time \<Rightarrow> time \<Rightarrow> http_request \<Rightarrow> 'w \<Rightarrow> 'w outcome" where
  "Handler hl sv now later req w =
     (let answer = (\<lambda>re. \<lparr>oc_reply = re, oc_audit = [], oc_log = [], oc_world = w\<rparr>) in
      if hr_path req = ''/token'' then
        (if hr_method req = ''POST'' then handleToken hl sv now later req w
         else answer \<lparr>re_status = 405, re_headers = [(''Allow'', ''POST'')], re_body = Plain ''Method Not Allowed''\<rparr>)
      else if hr_path req \<in> set get_routes then
        (if hr_method req \<noteq> ''GET'' \<and> hr_method req \<noteq> ''HEAD''
         then answer \<lparr>re_status = 405, re_headers = [(''Allow'', ''GET, HEAD'')], re_body = Plain ''Method Not Allowed''\<rparr>
         else if hr_path req = ''/healthz'' then answer \<lparr>re_status = 200, re_headers = [], re_body = Plain ''ok''\<rparr>
         else if hr_path req = ''/openapi.json''
         then answer \<lparr>re_status = 200, re_headers = [(''Content-Type'', ''application/json'')], re_body = OpenAPI\<rparr>
         else answer (handleMetadata sv))
      else answer \<lparr>re_status = 404, re_headers = [], re_body = Plain ''404 page not found''\<rparr>)"

end
