(* ===== verification/Server_Spec.thy ===== *)
theory Server_Spec
  imports Server
begin

text \<open>
  What the token endpoint guarantees for every authenticator, engine and minter: the chain of checks
  a request passes before a token is issued (\<open>decided\<close>, \<open>issued\<close>), the audit trail, the scope
  strings, and, in the locale \<open>token_endpoint\<close>, what follows when the authenticator and the minter
  keep their contracts.
\<close>

section \<open>The chain of checks\<close>

definition form_ok :: "http_lib \<Rightarrow> http_request \<Rightarrow> string list gomap \<Rightarrow> string \<Rightarrow> bool" where
  "form_ok hl req form tok \<longleftrightarrow>
     hl_parse_media hl (hr_content_type req) = Some ''application/x-www-form-urlencoded'' \<and>
     length (hr_body req) \<le> maxBodyBytes \<and> hl_parse_query hl (hr_body req) = Some form \<and>
     hl_parse_query hl (hr_query req) \<noteq> None \<and>
     form_get form ''grant_type'' = grantTypeTokenExchange \<and>
     form_get form ''actor_token'' = '''' \<and> form_get form ''actor_token_type'' = '''' \<and>
     form_get form ''subject_token_type'' = tokenTypeIDToken \<and>
     form_get form ''requested_token_type'' \<in> {'''', tokenTypeAccessToken} \<and>
     form_get form ''subject_token'' = tok \<and> tok \<noteq> ''''"

lemma type_constants: "grantTypeTokenExchange \<noteq> ''''" "tokenTypeIDToken \<noteq> ''''"
  by (simp_all add: grantTypeTokenExchange_def tokenTypeIDToken_def)

lemma check_form_Inr_iff:
  "check_form form = Inr tok \<longleftrightarrow>
     form_get form ''grant_type'' = grantTypeTokenExchange \<and>
     form_get form ''actor_token'' = '''' \<and> form_get form ''actor_token_type'' = '''' \<and>
     form_get form ''subject_token_type'' = tokenTypeIDToken \<and>
     form_get form ''requested_token_type'' \<in> {'''', tokenTypeAccessToken} \<and>
     form_get form ''subject_token'' = tok \<and> tok \<noteq> ''''"
  using type_constants unfolding check_form_def Let_def by (simp split: if_split) blast

lemma form_ok_iff:
  "form_ok hl req form tok \<longleftrightarrow>
    hl_parse_media hl (hr_content_type req) = Some ''application/x-www-form-urlencoded'' \<and>
    parse_form hl req = Some form \<and> check_form form = Inr tok"
  unfolding form_ok_def check_form_Inr_iff parse_form_def by (auto split: option.splits)

definition policy_input :: "Identity \<Rightarrow> resource list \<Rightarrow> Input" where
  "policy_input ident resources = \<lparr>in_issuer = id_issuer ident, in_caller = id_claims ident,
     in_request = \<lparr>req_resource = '''', req_resources = RawStrings resources\<rparr>\<rparr>"

text \<open>The request was authenticated, well-formed and decided.\<close>

definition decided ::
  "http_lib \<Rightarrow> ('p, 'w) Server \<Rightarrow> time \<Rightarrow> http_request \<Rightarrow> Identity \<Rightarrow> resource list \<Rightarrow> perms \<Rightarrow> Decision \<Rightarrow>
   (string \<times> string \<times> string) list \<Rightarrow> bool" where
  "decided hl sv now req ident resources perms decision logs \<longleftrightarrow>
     (\<exists>form tok. form_ok hl req form tok \<and> sv_auth sv now tok = Inr ident \<and>
        ParseAll (form_all form ''resource'') = Inr resources \<and>
        decodeScope (form_get form ''scope'') = Some perms \<and>
        Evaluate (sv_eval sv) (sv_engine sv) (policy_input ident resources) perms = (Inr decision, logs))"

lemma decided_unique:
  assumes "decided hl sv now req ident resources perms decision logs"
    and "decided hl sv now req ident' resources' perms' decision' logs'"
  shows "ident' = ident \<and> resources' = resources \<and> perms' = perms \<and> decision' = decision \<and> logs' = logs"
proof -
  obtain form tok where a: "form_ok hl req form tok" "sv_auth sv now tok = Inr ident"
    "ParseAll (form_all form ''resource'') = Inr resources" "decodeScope (form_get form ''scope'') = Some perms"
    "Evaluate (sv_eval sv) (sv_engine sv) (policy_input ident resources) perms = (Inr decision, logs)"
    using assms(1) unfolding decided_def by blast
  obtain form' tok' where b: "form_ok hl req form' tok'" "sv_auth sv now tok' = Inr ident'"
    "ParseAll (form_all form' ''resource'') = Inr resources'" "decodeScope (form_get form' ''scope'') = Some perms'"
    "Evaluate (sv_eval sv) (sv_engine sv) (policy_input ident' resources') perms' = (Inr decision', logs')"
    using assms(2) unfolding decided_def by blast
  have "form' = form" "tok' = tok" using a(1) b(1) by (auto simp: form_ok_def)
  with a b show ?thesis by simp
qed

lemma Owner_ParseAll: "ParseAll vs = Inr rs \<Longrightarrow> Owner rs = Some (res_owner (hd rs))"
  using ParseAll_nonempty [of vs rs] by (cases rs) (auto simp: Owner_def)

lemma exchange_cases:
  obtains (refused) code desc logs where
      "exchange sv later ident form w = bad_request code desc [] logs w"
      "\<And>resources perms. \<not> (ParseAll (form_all form ''resource'') = Inr resources \<and>
        decodeScope (form_get form ''scope'') = Some perms \<and>
        (\<exists>d. fst (Evaluate (sv_eval sv) (sv_engine sv) (policy_input ident resources) perms) = Inr d))"
  | (decided) resources perms decision logs where
      "ParseAll (form_all form ''resource'') = Inr resources" "decodeScope (form_get form ''scope'') = Some perms"
      "Evaluate (sv_eval sv) (sv_engine sv) (policy_input ident resources) perms = (Inr decision, logs)"
      "exchange sv later ident form w =
        (if \<not> d_allowed decision then bad_request errInvalidGrant (Text ''forbidden by policy'')
           [auditDeny ''token'' ident resources perms decision (denyReason decision)] (policy_logs logs) w
         else finish sv later ident resources perms decision (policy_logs logs)
           (sv_minter sv (res_owner (hd resources)) resources perms w))"
proof (cases "ParseAll (form_all form ''resource'')")
  case (Inl e)
  then show thesis by (intro refused [of errInvalidTarget "TargetText e" "[]"]) (simp_all add: exchange_def)
next
  case res: (Inr resources)
  note owner = Owner_ParseAll [OF res]
  show thesis
  proof (cases "decodeScope (form_get form ''scope'')")
    case None
    with res owner show thesis by (intro refused) (simp_all add: exchange_def)
  next
    case scope: (Some perms)
    obtain v logs where ev: "Evaluate (sv_eval sv) (sv_engine sv) (policy_input ident resources) perms = (v, logs)"
      by force
    show thesis
    proof (cases v)
      case (Inl x)
      with res owner scope ev show thesis
        by (cases x) (intro refused, auto simp: exchange_def policy_input_def)
    next
      case (Inr decision)
      with res owner scope ev show thesis
        by (intro decided [OF res scope]) (simp_all add: exchange_def policy_input_def)
    qed
  qed
qed

lemma handleToken_cases:
  obtains (refused) code desc logs where
      "handleToken hl sv now later req w = bad_request code desc [] logs w"
      "\<And>ident resources perms decision logs. \<not> decided hl sv now req ident resources perms decision logs"
  | (denied) ident resources perms decision logs where
      "decided hl sv now req ident resources perms decision logs" "\<not> d_allowed decision"
      "handleToken hl sv now later req w = bad_request errInvalidGrant (Text ''forbidden by policy'')
         [auditDeny ''token'' ident resources perms decision (denyReason decision)] (policy_logs logs) w"
  | (allowed) ident resources perms decision logs where
      "decided hl sv now req ident resources perms decision logs" "d_allowed decision"
      "handleToken hl sv now later req w = finish sv later ident resources perms decision (policy_logs logs)
         (sv_minter sv (res_owner (hd resources)) resources perms w)"
proof (cases "\<exists>form tok ident. form_ok hl req form tok \<and> sv_auth sv now tok = Inr ident")
  case False
  then have "\<exists>code desc logs. handleToken hl sv now later req w = bad_request code desc [] logs w"
    unfolding handleToken_def form_ok_iff by (fastforce split: option.splits sum.splits)
  with False refused show thesis unfolding decided_def by blast
next
  case True
  then obtain form tok ident where form: "form_ok hl req form tok" and auth: "sv_auth sv now tok = Inr ident" by blast
  then have h: "handleToken hl sv now later req w = exchange sv later ident form w"
    by (simp add: handleToken_def form_ok_iff)
  have unique: "form' = form \<and> tok' = tok" if "form_ok hl req form' tok'" for form' tok'
    using form that by (auto simp: form_ok_def)
  show thesis
  proof (cases rule: exchange_cases [of sv later ident form w])
    case (refused code desc logs)
    have "\<not> decided hl sv now req ident' resources perms decision logs'" for ident' resources perms decision logs'
      using refused(2) unique auth unfolding decided_def by fastforce
    with refused(1) that(1) show thesis by (simp add: h)
  next
    case (decided resources perms decision logs)
    then have d: "Server_Spec.decided hl sv now req ident resources perms decision logs"
      using form auth unfolding decided_def by blast
    show thesis
      by (cases "d_allowed decision") (use d decided(4) that(2,3) in \<open>simp_all add: h\<close>)
  qed
qed


section \<open>Scope strings\<close>

lemma catalog_words: "list_all (\<lambda>(k, ls). k \<noteq> '''' \<and> list_all word_char k \<and> CHR '':'' \<notin> set k \<and>
    list_all (\<lambda>l. l \<noteq> '''' \<and> list_all word_char l \<and> CHR '':'' \<notin> set l) ls) Catalog"
  by code_simp

lemma ValidKeyLevel_words:
  assumes "ValidKeyLevel k v"
  shows "k \<noteq> ''''" "v \<noteq> ''''" "CHR '':'' \<notin> set k" "CHR '':'' \<notin> set v" "list_all word_char k" "list_all word_char v"
proof -
  obtain ls where "(k, ls) \<in> set Catalog" "v \<in> set ls"
    using assms by (auto simp: ValidKeyLevel_def list_ex_iff split: option.splits dest: map_of_SomeD)
  then show "k \<noteq> ''''" "v \<noteq> ''''" "CHR '':'' \<notin> set k" "CHR '':'' \<notin> set v" "list_all word_char k" "list_all word_char v"
    using catalog_words by (auto simp: list_all_iff)
qed

lemma perms_ok_Normalize:
  assumes "perms_ok ps"
  shows "gm_lookup (Normalize ps) = gm_lookup ps"
proof
  fix k
  show "gm_lookup (Normalize ps) k = gm_lookup ps k"
    using assms by (auto simp: lookup_Normalize perms_ok_iff split: option.splits
        dest: ValidKeyLevel_ValidKey ValidKeyLevel_ValidLevel)
qed

lemma decode_fields_perms_ok:
  "decode_fields m toks = Some ps \<Longrightarrow> perms_ok m \<Longrightarrow> perms_ok ps \<and> dom (gm_lookup m) \<subseteq> dom (gm_lookup ps) \<and>
    (toks \<noteq> [] \<longrightarrow> gm_lookup ps \<noteq> Map.empty)"
proof (induction toks arbitrary: m)
  case Nil
  then show ?case by simp
next
  case (Cons tok toks)
  obtain idx where step: "ValidKeyLevel (take idx tok) (drop (idx + 1) tok)"
    "decode_fields (gm_put (take idx tok) (drop (idx + 1) tok) m) toks = Some ps"
    using Cons.prems(1) by (auto simp: Let_def split: option.splits if_splits)
  have "perms_ok (gm_put (take idx tok) (drop (idx + 1) tok) m)"
    using Cons.prems(2) step(1) by (auto simp: perms_ok_iff)
  from Cons.IH [OF step(2) this] have ps: "perms_ok ps"
    "dom (gm_lookup (gm_put (take idx tok) (drop (idx + 1) tok) m)) \<subseteq> dom (gm_lookup ps)" by auto
  moreover have "insert (take idx tok) (dom (gm_lookup m))
      = dom (gm_lookup (gm_put (take idx tok) (drop (idx + 1) tok) m))" by auto
  ultimately have "take idx tok \<in> dom (gm_lookup ps)" and "dom (gm_lookup m) \<subseteq> dom (gm_lookup ps)" by blast+
  with ps(1) show ?case by auto
qed

lemma decodeScope_ok:
  assumes "decodeScope s = Some ps"
  shows "perms_ok ps" "gm_lookup ps \<noteq> Map.empty"
  using assms decode_fields_perms_ok [of gm_empty "Fields s" ps]
  by (auto simp: decodeScope_def Let_def perms_ok_iff split: if_splits)

definition scope_token :: "string \<Rightarrow> string \<Rightarrow> string" where
  "scope_token k v = k @ '':'' @ v"

lemma decode_fields_tokens:
  assumes "\<forall>(k, v)\<in>set kvs. ValidKeyLevel k v"
  shows "decode_fields m (map (\<lambda>(k, v). scope_token k v) kvs) = Some (fold (\<lambda>(k, v). gm_put k v) kvs m)"
  using assms
proof (induction kvs arbitrary: m)
  case Nil
  then show ?case by simp
next
  case (Cons kv kvs)
  obtain k v where kv: "kv = (k, v)" by force
  then have ok: "ValidKeyLevel k v" using Cons.prems by simp
  note w = ValidKeyLevel_words [OF ok]
  have "last_index_of (CHR '':'') (scope_token k v) = Some (length k)"
    using last_index_of_append [OF w(4), of k] by (simp add: scope_token_def)
  moreover have "take (length k) (scope_token k v) = k" "drop (length k + 1) (scope_token k v) = v"
    "length k \<noteq> 0" "length k \<noteq> length (scope_token k v) - 1"
    using w(1,2) by (simp_all add: scope_token_def)
  ultimately show ?case using Cons ok kv by simp
qed

lemma encodeScope_tokens:
  "encodeScope ps = join_with '' '' (map (\<lambda>(k, v). scope_token k v)
    (map (\<lambda>k. (k, case gm_lookup ps k of None \<Rightarrow> '''' | Some l \<Rightarrow> l)) (sort (gm_keys ps))))"
  by (simp add: encodeScope_def Let_def scope_token_def comp_def)

lemma decode_encode:
  assumes ok: "perms_ok ps" and ne: "gm_lookup ps \<noteq> Map.empty"
  obtains ps' where "decodeScope (encodeScope ps) = Some ps'" "gm_lookup ps' = gm_lookup ps"
proof -
  define kvs where "kvs = map (\<lambda>k. (k, case gm_lookup ps k of None \<Rightarrow> '''' | Some l \<Rightarrow> l)) (sort (gm_keys ps))"
  have in_kvs: "(k, v) \<in> set kvs \<longleftrightarrow> gm_lookup ps k = Some v" for k v
    by (auto simp: kvs_def gm_keys_dom split: option.splits)
  have valid: "\<forall>(k, v)\<in>set kvs. ValidKeyLevel k v" using ok by (auto simp: in_kvs perms_ok_iff)
  have "\<forall>w\<in>set (map (\<lambda>(k, v). scope_token k v) kvs). w \<noteq> [] \<and> (\<forall>c\<in>set w. word_char c)"
  proof
    fix w
    assume "w \<in> set (map (\<lambda>(k, v). scope_token k v) kvs)"
    then obtain k v where "(k, v) \<in> set kvs" and w: "w = scope_token k v" by auto
    with valid have "ValidKeyLevel k v" by auto
    moreover have "word_char (CHR '':'')" by (simp add: word_char_def less_char_def less_eq_char_def)
    ultimately show "w \<noteq> [] \<and> (\<forall>c\<in>set w. word_char c)"
      using ValidKeyLevel_words [of k v] by (auto simp: w scope_token_def list_all_iff)
  qed
  then have fields: "Fields (encodeScope ps) = map (\<lambda>(k, v). scope_token k v) kvs"
    unfolding encodeScope_tokens kvs_def [symmetric] by (rule Fields_join)
  have "kvs \<noteq> []" using ne in_kvs by (metis empty_iff list.set(1) not_Some_eq ext)
  then have dec: "decodeScope (encodeScope ps) = Some (gm_of kvs)"
    by (simp add: decodeScope_def fields decode_fields_tokens [OF valid] gm_of_def)
  have dist: "distinct (map fst kvs)" by (simp add: kvs_def comp_def)
  have "gm_lookup (gm_of kvs) k = Some v \<longleftrightarrow> gm_lookup ps k = Some v" for k v
    using in_kvs dist by (simp add: gm_lookup_iff_entry gm_entries_of)
  then have "gm_lookup (gm_of kvs) = gm_lookup ps" by (metis ext not_Some_eq)
  with dec that show thesis by blast
qed

lemma scopeEqual_iff:
  assumes "\<And>k. gm_lookup a k \<noteq> Some ''''"
  shows "scopeEqual a b \<longleftrightarrow> gm_lookup a = gm_lookup b"
proof
  assume eq: "scopeEqual a b"
  have val: "gm_lookup b k = Some v" if "gm_lookup a k = Some v" for k v
  proof -
    have "(case gm_lookup b k of None \<Rightarrow> '''' | Some w \<Rightarrow> w) = v"
      using eq that by (simp add: scopeEqual_def gm_forall_entries split: if_splits)
    with that assms show ?thesis by (auto split: option.splits)
  qed
  then have sub: "dom (gm_lookup a) \<subseteq> dom (gm_lookup b)" by auto
  have "card (dom (gm_lookup a)) = card (dom (gm_lookup b))"
    using eq by (simp add: scopeEqual_def gm_len_card split: if_splits)
  with card_subset_eq [OF gm_finite_dom sub] have "dom (gm_lookup a) = dom (gm_lookup b)" by simp
  then show "gm_lookup a = gm_lookup b"
    using val by (metis domIff ext option.exhaust)
next
  assume "gm_lookup a = gm_lookup b"
  then show "scopeEqual a b"
    by (auto simp: scopeEqual_def gm_len_card gm_forall_entries)
qed


section \<open>Properties of the token endpoint\<close>

text \<open>A token was issued: the request was decided and allowed, and the minter returned a token.\<close>

definition issued ::
  "http_lib \<Rightarrow> ('p, 'w) Server \<Rightarrow> time \<Rightarrow> http_request \<Rightarrow> 'w \<Rightarrow> Identity \<Rightarrow> resource list \<Rightarrow> perms \<Rightarrow> Decision \<Rightarrow>
   (string \<times> string \<times> string) list \<Rightarrow> ScopedToken \<Rightarrow> 'w \<Rightarrow> bool" where
  "issued hl sv now req w ident resources perms decision logs token w' \<longleftrightarrow>
     decided hl sv now req ident resources perms decision logs \<and> d_allowed decision \<and>
     sv_minter sv (res_owner (hd resources)) resources perms w = (Inr token, w')"

lemma bad_request_simps [simp]:
  "re_status (oc_reply (bad_request code desc events logs w)) = 400"
  "oc_audit (bad_request code desc events logs w) = events"
  "oc_world (bad_request code desc events logs w) = w"
  "re_body (oc_reply (bad_request code desc events logs w)) = OAuthError code desc"
  by (simp_all add: bad_request_def writeOAuthError_def writeJSON_def)

lemma audit_event_simps [simp]:
  "ev_decision (auditDeny op ident resources perms decision reason) = DecisionDeny"
  "ev_token_issued (auditDeny op ident resources perms decision reason) = False"
  "ev_reason (auditDeny op ident resources perms decision reason) = reason"
  "ev_decision (audit_allow ident resources perms decision token) = DecisionAllow"
  "ev_token_issued (audit_allow ident resources perms decision token) = True"
  "ev_issuer (audit_allow ident resources perms decision token) = id_issuer ident"
  by (simp_all add: auditDeny_def audit_allow_def audit_event_def)

text \<open>The outcome of \<open>finish\<close>, by the answer of the minter.\<close>

lemma finish_Inr:
  "finish sv later ident resources perms decision logs (Inr token, w') =
    \<lparr>oc_reply = writeJSON 200 (TokenReply (token_response sv later perms token)),
     oc_audit = [audit_allow ident resources perms decision token], oc_log = logs, oc_world = w'\<rparr>"
  by (simp add: finish_def)

lemma finish_Inl:
  obtains (denied) code desc reason where
      "finish sv later ident resources perms decision logs (Inl err, w') =
        bad_request code desc [auditDeny ''token'' ident resources perms decision reason] logs w'"
      "err = ErrEmptyScope \<and> reason = ''empty computed scope'' \<or> (\<exists>m. err = ErrInsufficientScope m) \<and>
        reason = ''installation permissions insufficient''"
  | (upstream) "finish sv later ident resources perms decision logs (Inl err, w') =
        \<lparr>oc_reply = writeOAuthError 502 errServerError (Text ''upstream error''), oc_audit = [],
         oc_log = logs @ [MintToken err], oc_world = w'\<rparr>"
  by (cases err) (simp_all add: finish_def)

lemma issued_outcome:
  assumes i: "issued hl sv now req w ident resources perms decision logs token w'"
  shows "handleToken hl sv now later req w =
    \<lparr>oc_reply = writeJSON 200 (TokenReply (token_response sv later perms token)),
     oc_audit = [audit_allow ident resources perms decision token],
     oc_log = policy_logs logs, oc_world = w'\<rparr>"
proof -
  have d: "decided hl sv now req ident resources perms decision logs" "d_allowed decision"
    and m: "sv_minter sv (res_owner (hd resources)) resources perms w = (Inr token, w')"
    using i by (simp_all add: issued_def)
  show ?thesis
  proof (cases rule: handleToken_cases [of hl sv now later req w])
    case (refused code desc l)
    with d show ?thesis by blast
  next
    case (denied ident' resources' perms' decision' logs')
    with d decided_unique [OF d(1) denied(1)] show ?thesis by blast
  next
    case (allowed ident' resources' perms' decision' logs')
    from allowed(3) decided_unique [OF d(1) allowed(1)] m show ?thesis by (simp add: finish_Inr)
  qed
qed

lemma status_issued:
  assumes ok: "re_status (oc_reply (handleToken hl sv now later req w)) = 200"
  shows "\<exists>ident resources perms decision logs token w'.
    issued hl sv now req w ident resources perms decision logs token w'"
proof (cases rule: handleToken_cases [of hl sv now later req w])
  case (allowed ident resources perms decision logs)
  obtain res w1 where m: "sv_minter sv (res_owner (hd resources)) resources perms w = (res, w1)" by force
  show ?thesis
  proof (cases res)
    case (Inl err)
    have "re_status (oc_reply (handleToken hl sv now later req w)) \<noteq> 200"
      unfolding allowed(3) m Inl
      by (cases rule: finish_Inl [of sv later ident resources perms decision "policy_logs logs" err w1])
        (simp_all add: writeOAuthError_def writeJSON_def)
    with ok show ?thesis by simp
  next
    case (Inr tok)
    with allowed m show ?thesis unfolding issued_def by blast
  qed
qed (use ok in simp_all)

text \<open>C28. A token is answered (status 200) exactly when every step of the exchange succeeded: the form
  is a token exchange with an ID token and no actor, the token authenticates, the resources parse and
  agree, the scope is a non-empty list of catalog permissions, the engine allows it for the verified
  identity and the minter mints exactly for these resources and permissions. The reply then carries
  that token, one allow event is written, and nothing else happens.\<close>

theorem handleToken_issues:
  "(re_status (oc_reply (handleToken hl sv now later req w)) = 200 \<longleftrightarrow>
      (\<exists>ident resources perms decision logs token w'.
         issued hl sv now req w ident resources perms decision logs token w')) \<and>
    (issued hl sv now req w ident resources perms decision logs token w' \<longrightarrow>
      handleToken hl sv now later req w =
        \<lparr>oc_reply = writeJSON 200 (TokenReply (token_response sv later perms token)),
         oc_audit = [audit_allow ident resources perms decision token],
         oc_log = policy_logs logs, oc_world = w'\<rparr>)"
  using status_issued [of hl sv now later req w] by (auto simp: issued_outcome writeJSON_def)

text \<open>C11. The audit trail is complete and exact: an exchange writes at most one event; an allow event is
  written exactly when a token is answered, and records that a token was issued; a policy denial
  writes a deny event with the reason, while the client only learns \<open>forbidden by policy\<close>; an
  exchange without an event is an error answer.\<close>

theorem handleToken_audited:
  "length (oc_audit (handleToken hl sv now later req w)) \<le> 1 \<and>
    (list_ex (\<lambda>ev. ev_decision ev = DecisionAllow) (oc_audit (handleToken hl sv now later req w)) \<longleftrightarrow>
      re_status (oc_reply (handleToken hl sv now later req w)) = 200) \<and>
    list_all (\<lambda>ev. ev_token_issued ev \<longleftrightarrow> ev_decision ev = DecisionAllow)
      (oc_audit (handleToken hl sv now later req w)) \<and>
    (decided hl sv now req ident resources perms decision logs \<and> \<not> d_allowed decision \<longrightarrow>
      oc_audit (handleToken hl sv now later req w) =
        [auditDeny ''token'' ident resources perms decision (denyReason decision)] \<and>
      oc_reply (handleToken hl sv now later req w) =
        writeOAuthError 400 errInvalidGrant (Text ''forbidden by policy'') \<and>
      oc_world (handleToken hl sv now later req w) = w)"
proof -
  have dd: "DecisionDeny \<noteq> DecisionAllow" by (simp add: DecisionAllow_def DecisionDeny_def)
  show ?thesis
  proof (cases rule: handleToken_cases [of hl sv now later req w])
    case (refused code desc l)
    then show ?thesis by auto
  next
    case (denied ident' resources' perms' decision' logs')
    note d = decided_unique [OF denied(1)]
    have "decided hl sv now req ident resources perms decision logs \<Longrightarrow>
        ident = ident' \<and> resources = resources' \<and> perms = perms' \<and> decision = decision'"
      using d by blast
    with denied(3) dd show ?thesis by (auto simp: bad_request_def writeOAuthError_def writeJSON_def)
  next
    case (allowed ident' resources' perms' decision' logs')
    have no: "\<not> (decided hl sv now req ident resources perms decision logs \<and> \<not> d_allowed decision)"
      using decided_unique [OF allowed(1)] allowed(2) by blast
    obtain res w1 where m: "sv_minter sv (res_owner (hd resources')) resources' perms' w = (res, w1)" by force
    show ?thesis
    proof (cases res)
      case (Inr tok)
      with no show ?thesis unfolding allowed(3) m by (auto simp: finish_Inr writeJSON_def)
    next
      case (Inl err)
      from no dd show ?thesis unfolding allowed(3) m Inl
        by (cases rule: finish_Inl [of sv later ident' resources' perms' decision' "policy_logs logs'" err w1])
          (auto simp: writeOAuthError_def writeJSON_def)
    qed
  qed
qed

lemma handleToken_world:
  assumes "oc_world (handleToken hl sv now later req w) \<noteq> w"
  shows "\<exists>ident resources perms decision logs.
    decided hl sv now req ident resources perms decision logs \<and> d_allowed decision \<and>
    oc_world (handleToken hl sv now later req w) =
      snd (sv_minter sv (res_owner (hd resources)) resources perms w)"
proof (cases rule: handleToken_cases [of hl sv now later req w])
  case (allowed ident resources perms decision logs)
  have "oc_world (finish sv later ident resources perms decision (policy_logs logs) rw) = snd rw" for rw
  proof (cases rw)
    case (Pair res w1)
    show ?thesis
    proof (cases res)
      case (Inl err)
      then show ?thesis unfolding Pair Inl
        by (cases rule: finish_Inl [of sv later ident resources perms decision "policy_logs logs" err w1]) simp_all
    qed (simp add: Pair finish_Inr)
  qed
  with allowed show ?thesis by metis
qed (use assms in auto)

text \<open>C6. Nothing is minted without permission: whatever the minter does to the world, it is called at
  most once, only after the request was authenticated and allowed, and for exactly the resources and
  permissions that were decided; any other request leaves the world as it was.\<close>

theorem handleToken_minter_guarded:
  assumes "oc_world (handleToken hl sv now later req w) \<noteq> w"
  shows "\<exists>ident resources perms decision logs.
    decided hl sv now req ident resources perms decision logs \<and> d_allowed decision \<and>
    oc_world (handleToken hl sv now later req w) =
      snd (sv_minter sv (res_owner (hd resources)) resources perms w)"
  by (rule handleToken_world [OF assms])

text \<open>C27. Scope strings round-trip: what \<open>decodeScope\<close> accepts is a non-empty map of catalog keys
  with levels the catalog allows; \<open>encodeScope\<close> of any such map decodes to the same map again; and
  two such maps are equal exactly when \<open>scopeEqual\<close> says so.\<close>

theorem scope_round_trip:
  assumes "perms_ok ps \<and> gm_lookup ps \<noteq> Map.empty \<or> decodeScope s = Some ps"
  shows "perms_ok ps \<and> gm_lookup ps \<noteq> Map.empty \<and>
    (\<exists>ps'. decodeScope (encodeScope ps) = Some ps' \<and> gm_lookup ps' = gm_lookup ps \<and> scopeEqual ps ps') \<and>
    (scopeEqual ps other \<longleftrightarrow> gm_lookup ps = gm_lookup other)"
proof -
  have ok: "perms_ok ps" "gm_lookup ps \<noteq> Map.empty" using assms decodeScope_ok by blast+
  obtain ps' where ps': "decodeScope (encodeScope ps) = Some ps'" "gm_lookup ps' = gm_lookup ps"
    by (rule decode_encode [OF ok])
  have "gm_lookup ps k \<noteq> Some ''''" for k
    using ok(1) ValidKeyLevel_words(2) [of k "''''"] by (auto simp: perms_ok_iff)
  note eq = scopeEqual_iff [OF this]
  show ?thesis using ok ps' by (auto simp: eq)
qed

text \<open>C29. The client can rely on the \<open>scope\<close> member of the reply: it is left out exactly when GitHub
  granted what was requested (or named no permission at all), and when it is present and GitHub
  answered with catalog permissions, decoding it gives exactly the permissions of the token.\<close>

theorem response_scope:
  assumes "decodeScope s = Some ps"
  shows "(te_scope (token_response sv later ps token) = '''' \<longleftrightarrow>
      gm_lookup (tok_permissions token) = gm_lookup ps \<or> gm_lookup (tok_permissions token) = Map.empty) \<and>
    (perms_ok (tok_permissions token) \<and> te_scope (token_response sv later ps token) \<noteq> '''' \<longrightarrow>
      (\<exists>ps'. decodeScope (te_scope (token_response sv later ps token)) = Some ps' \<and>
        gm_lookup ps' = gm_lookup (tok_permissions token)))"
proof -
  have ok: "perms_ok ps" by (rule decodeScope_ok [OF assms])
  have "gm_lookup ps k \<noteq> Some ''''" for k
    using ok ValidKeyLevel_words(2) [of k "''''"] by (auto simp: perms_ok_iff)
  note eq = scopeEqual_iff [OF this]
  have empty: "encodeScope m = '''' \<longleftrightarrow> gm_lookup m = Map.empty" for m
  proof -
    define ws where "ws = map (\<lambda>k. k @ '':'' @ (case gm_lookup m k of None \<Rightarrow> '''' | Some l \<Rightarrow> l)) (sort (gm_keys m))"
    have "'''' \<notin> set ws" by (auto simp: ws_def)
    then have "join_with '' '' ws = '''' \<longleftrightarrow> ws = []" by (cases ws; cases "tl ws") auto
    moreover have "encodeScope m = join_with '' '' ws" by (simp add: encodeScope_def ws_def)
    ultimately have "encodeScope m = '''' \<longleftrightarrow> sort (gm_keys m) = []" by (simp add: ws_def)
    also have "\<dots> \<longleftrightarrow> set (gm_keys m) = {}" by (metis set_empty set_sort)
    finally show ?thesis by (simp add: gm_keys_dom)
  qed
  have scope: "te_scope (token_response sv later ps token) =
      (if gm_lookup ps = gm_lookup (tok_permissions token) then '''' else encodeScope (tok_permissions token))"
    by (simp add: token_response_def eq)
  show ?thesis
  proof (intro conjI impI)
    show "te_scope (token_response sv later ps token) = '''' \<longleftrightarrow>
      gm_lookup (tok_permissions token) = gm_lookup ps \<or> gm_lookup (tok_permissions token) = Map.empty"
      unfolding scope using empty [of "tok_permissions token"] by auto
    assume *: "perms_ok (tok_permissions token) \<and> te_scope (token_response sv later ps token) \<noteq> ''''"
    then have "gm_lookup (tok_permissions token) \<noteq> Map.empty"
      and "te_scope (token_response sv later ps token) = encodeScope (tok_permissions token)"
      unfolding scope using empty [of "tok_permissions token"] by (auto split: if_splits)
    with * show "\<exists>ps'. decodeScope (te_scope (token_response sv later ps token)) = Some ps' \<and>
        gm_lookup ps' = gm_lookup (tok_permissions token)"
      by (metis decode_encode)
  qed
qed

text \<open>C30. The endpoint always answers: a reply has status 200 with a token, 400 or 502 with an OAuth
  error; the panic of \<open>Owner\<close> on an empty list is never reached, and an upstream failure (502) only
  follows a request the engine allowed.\<close>

theorem handleToken_answers:
  "(case oc_reply (handleToken hl sv now later req w) of re \<Rightarrow>
      re \<noteq> aborted \<and>
      (re_status re = 200 \<and> (\<exists>te. re_body re = TokenReply te \<and> te_token_type te = ''bearer'') \<or>
       re_status re = 400 \<and> (\<exists>code desc. re_body re = OAuthError code desc) \<or>
       re_status re = 502 \<and> re_body re = OAuthError errServerError (Text ''upstream error'') \<and>
         (\<exists>ident resources perms decision logs.
            decided hl sv now req ident resources perms decision logs \<and> d_allowed decision)))"
proof (cases rule: handleToken_cases [of hl sv now later req w])
  case (allowed ident resources perms decision logs)
  obtain res w1 where m: "sv_minter sv (res_owner (hd resources)) resources perms w = (res, w1)" by force
  show ?thesis
  proof (cases res)
    case (Inr tok)
    show ?thesis unfolding allowed(3) m Inr
      by (simp add: finish_Inr writeJSON_def aborted_def token_response_def)
  next
    case (Inl err)
    show ?thesis unfolding allowed(3) m Inl using allowed(1,2)
      by (cases rule: finish_Inl [of sv later ident resources perms decision "policy_logs logs" err w1])
        (simp add: writeOAuthError_def writeJSON_def aborted_def bad_request_def; blast)+
  qed
qed (auto simp: bad_request_def writeOAuthError_def writeJSON_def aborted_def)


section \<open>A server for the witnesses\<close>

definition sample_form :: "string list gomap" where
  "sample_form = gm_of [(''grant_type'', [grantTypeTokenExchange]), (''subject_token'', [''token'']),
     (''subject_token_type'', [tokenTypeIDToken]), (''resource'', [''o/a'']), (''scope'', [''contents:read''])]"

definition sample_http :: http_lib where
  "sample_http = \<lparr>hl_parse_media = (\<lambda>s. if s = ''form'' then Some ''application/x-www-form-urlencoded'' else None),
     hl_parse_query = (\<lambda>s. Some (if s = ''exchange'' then sample_form else gm_empty))\<rparr>"

definition sample_request :: http_request where
  "sample_request = \<lparr>hr_method = ''POST'', hr_path = ''/token'', hr_query = '''', hr_content_type = ''form'',
     hr_body = ''exchange''\<rparr>"

definition sample_server :: "(string list, request list) Server" where
  "sample_server = new_server (\<lambda>now tok. if tok = ''token'' then Inr (sample_identity\<lparr>id_issuer := ''github''\<rparr>) else Inl EmptyToken)
     sample_engine in_list_eval (Mint sample_github sample_client) ''https://broker.example''
     \<lparr>ai_slug = ''broker'', ai_bot_id = 99, ai_name = ''broker[bot]'', ai_email = ''''\<rparr>"

definition sample_perms :: perms where
  "sample_perms = gm_of [(''contents'', ''read'')]"

lemma sample_form_ok: "form_ok sample_http sample_request sample_form ''token''"
proof -
  have "length (''exchange'') \<le> maxBodyBytes" by (simp add: maxBodyBytes_def)
  then show ?thesis
    by (simp add: form_ok_def sample_http_def sample_request_def sample_form_def form_get_def gm_lookup_of)
qed

lemma sample_scope: "decodeScope (form_get sample_form ''scope'') = Some sample_perms"
proof -
  have "form_get sample_form ''scope'' = ''contents:read''" by (simp add: sample_form_def form_get_def gm_lookup_of)
  moreover have "decodeScope ''contents:read'' = Some sample_perms" by code_simp
  ultimately show ?thesis by simp
qed

lemma sample_resources: "ParseAll (form_all sample_form ''resource'') = Inr sample_rs"
  using sample_parse by (simp add: sample_form_def form_all_def gm_lookup_of sample_rs_def)

lemma sample_decided:
  "\<exists>d logs. decided sample_http sample_server 0 sample_request (sample_identity\<lparr>id_issuer := ''github''\<rparr>)
     sample_rs sample_perms d logs \<and> d_allowed d"
proof -
  let ?inp = "policy_input (sample_identity\<lparr>id_issuer := ''github''\<rparr>) sample_rs"
  have *: "case fst (Evaluate in_list_eval sample_engine ?inp sample_perms) of Inl e \<Rightarrow> False | Inr d \<Rightarrow> d_allowed d"
    by code_simp
  obtain x logs where ev: "Evaluate in_list_eval sample_engine ?inp sample_perms = (x, logs)" by force
  show ?thesis
  proof (cases x)
    case (Inl e)
    from * show ?thesis unfolding ev Inl by simp
  next
    case (Inr d)
    from * have "d_allowed d" unfolding ev Inr by simp
    moreover have "sv_auth sample_server 0 ''token'' = Inr (sample_identity\<lparr>id_issuer := ''github''\<rparr>)"
      "sv_engine sample_server = sample_engine" "sv_eval sample_server = in_list_eval"
      by (simp_all add: sample_server_def new_server_def)
    ultimately show ?thesis
      using sample_form_ok sample_resources sample_scope ev Inr unfolding decided_def by metis
  qed
qed

lemma sample_minted:
  "\<exists>t'. sv_minter sample_server (res_owner (hd sample_rs)) sample_rs sample_perms [] =
    (Inr \<lparr>tok_token = ''ghs'', tok_expires_at = 3600, tok_permissions = gm_of [(''contents'', ''read'')],
      tok_repositories = [''a'']\<rparr>, t') \<and> t' \<noteq> []"
proof -
  have *: "case Mint sample_github sample_client ''o'' sample_rs sample_perms [] of (r, t') \<Rightarrow> t' \<noteq> [] \<and>
      (case r of Inl e \<Rightarrow> False | Inr tok \<Rightarrow> tok = \<lparr>tok_token = ''ghs'', tok_expires_at = 3600,
        tok_permissions = gm_of [(''contents'', ''read'')], tok_repositories = [''a'']\<rparr>)"
    by code_simp
  have "sv_minter sample_server (res_owner (hd sample_rs)) sample_rs sample_perms [] =
      Mint sample_github sample_client ''o'' sample_rs sample_perms []"
    by (simp add: sample_server_def new_server_def sample_rs_def repo_resource_def)
  with * show ?thesis by (auto split: prod.splits sum.splits)
qed

lemma sample_issued: "\<exists>d logs token t'. issued sample_http sample_server 0 sample_request []
    (sample_identity\<lparr>id_issuer := ''github''\<rparr>) sample_rs sample_perms d logs token t' \<and> t' \<noteq> []"
  using sample_decided sample_minted unfolding issued_def by blast


theorem handleToken_issues_witness:
  "\<exists>decision logs token w'.
    issued sample_http sample_server 0 sample_request [] (sample_identity\<lparr>id_issuer := ''github''\<rparr>) sample_rs sample_perms
      decision logs token w' \<and>
    oc_audit (handleToken sample_http sample_server 0 0 sample_request []) =
      [audit_allow (sample_identity\<lparr>id_issuer := ''github''\<rparr>) sample_rs sample_perms decision token]"
proof -
  obtain d logs token w' where i: "issued sample_http sample_server 0 sample_request []
      (sample_identity\<lparr>id_issuer := ''github''\<rparr>) sample_rs sample_perms d logs token w'"
    using sample_issued by blast
  with handleToken_issues [of sample_http sample_server 0 0 sample_request "[]"] show ?thesis
    by (metis outcome.select_convs(2))
qed

text \<open>The same request to an engine without policies.\<close>

definition closed_server :: "(string list, request list) Server" where
  "closed_server = sample_server\<lparr>sv_engine := \<lparr>en_policies = gm_empty, en_max_repositories = 2\<rparr>\<rparr>"

lemma closed_decided:
  "\<exists>d logs. decided sample_http closed_server 0 sample_request (sample_identity\<lparr>id_issuer := ''github''\<rparr>)
     sample_rs sample_perms d logs \<and> \<not> d_allowed d"
proof -
  let ?inp = "policy_input (sample_identity\<lparr>id_issuer := ''github''\<rparr>) sample_rs"
  let ?e = "\<lparr>en_policies = gm_empty, en_max_repositories = 2\<rparr> :: string list Engine"
  have *: "case fst (Evaluate in_list_eval ?e ?inp sample_perms) of Inl e \<Rightarrow> False | Inr d \<Rightarrow> \<not> d_allowed d"
    by code_simp
  obtain x logs where ev: "Evaluate in_list_eval ?e ?inp sample_perms = (x, logs)" by force
  show ?thesis
  proof (cases x)
    case (Inl e)
    from * show ?thesis unfolding ev Inl by simp
  next
    case (Inr d)
    from * have "\<not> d_allowed d" unfolding ev Inr by simp
    moreover have "sv_auth closed_server 0 ''token'' = Inr (sample_identity\<lparr>id_issuer := ''github''\<rparr>)"
      "sv_engine closed_server = ?e" "sv_eval closed_server = in_list_eval"
      by (simp_all add: closed_server_def sample_server_def new_server_def)
    ultimately show ?thesis
      using sample_form_ok sample_resources sample_scope ev Inr unfolding decided_def by metis
  qed
qed

theorem handleToken_audited_witness:
  "oc_reply (handleToken sample_http closed_server 0 0 sample_request []) =
    writeOAuthError 400 errInvalidGrant (Text ''forbidden by policy'')"
  using closed_decided handleToken_audited [of sample_http closed_server 0 0 sample_request "[]"] by blast

theorem handleToken_minter_guarded_witness:
  "\<exists>ident resources perms decision logs. decided sample_http sample_server 0 sample_request ident resources perms decision logs"
proof -
  obtain d logs token w' where i: "issued sample_http sample_server 0 sample_request []
      (sample_identity\<lparr>id_issuer := ''github''\<rparr>) sample_rs sample_perms d logs token w'" "w' \<noteq> []"
    using sample_issued by blast
  from i(2) have "oc_world (handleToken sample_http sample_server 0 0 sample_request []) \<noteq> []"
    unfolding issued_outcome [OF i(1)] by simp
  from handleToken_minter_guarded [OF this] show ?thesis by (elim exE conjE) (intro exI)
qed

theorem scope_round_trip_witness:
  "\<exists>ps'. decodeScope (encodeScope sample_perms) = Some ps' \<and> gm_lookup ps' = gm_lookup sample_perms"
  using scope_round_trip [of sample_perms "form_get sample_form ''scope''"] sample_scope by blast

theorem response_scope_witness:
  "te_scope (token_response sample_server 0 sample_perms
    \<lparr>tok_token = ''ghs'', tok_expires_at = 3600, tok_permissions = gm_empty, tok_repositories = []\<rparr>) = ''''"
  using response_scope [OF sample_scope, of sample_server 0
    "\<lparr>tok_token = ''ghs'', tok_expires_at = 3600, tok_permissions = gm_empty, tok_repositories = []\<rparr>"]
  by (auto simp: fun_eq_iff)

section \<open>An endpoint whose authenticator and minter keep their contracts\<close>

locale token_endpoint = authenticator authenticate names + minter mint
  for authenticate and names and mint :: "string \<Rightarrow> resource list \<Rightarrow> perms \<Rightarrow> 'w \<Rightarrow> (mint_error + ScopedToken) \<times> 'w" +
  fixes sv :: "('p, 'w) Server"
  assumes wired: "sv_auth sv = authenticate" "sv_minter sv = mint"
begin

lemma decided_issuer: "decided hl sv now req ident resources perms decision logs \<Longrightarrow> id_issuer ident \<in> names"
  unfolding decided_def wired using known_issuer by blast

lemma decided_scope:
  assumes "decided hl sv now req ident resources perms decision logs"
  shows "gm_lookup (Normalize perms) \<noteq> Map.empty"
proof -
  from assms have ok: "perms_ok perms" "gm_lookup perms \<noteq> Map.empty"
    unfolding decided_def using decodeScope_ok by blast+
  then show ?thesis by (simp add: perms_ok_Normalize)
qed

lemma no_empty_scope_event:
  "list_all (\<lambda>ev. ev_reason ev \<noteq> ''empty computed scope'') (oc_audit (handleToken hl sv now later req w))"
proof (cases rule: handleToken_cases [of hl sv now later req w])
  case (allowed ident resources perms decision logs)
  obtain res w1 where m: "mint (res_owner (hd resources)) resources perms w = (res, w1)" by force
  show ?thesis
  proof (cases res)
    case (Inr tok)
    show ?thesis unfolding allowed(3) wired m Inr
      by (simp add: finish_Inr audit_allow_def audit_event_def)
  next
    case (Inl err)
    have "err \<noteq> ErrEmptyScope"
      using no_empty_scope [OF decided_scope [OF allowed(1)]] m Inl by (metis fst_conv)
    then show ?thesis unfolding allowed(3) wired m Inl
      by (cases rule: finish_Inl [of sv later ident resources perms decision "policy_logs logs" err w1]) auto
  qed
next
  case (denied ident resources perms decision logs)
  have "denyReason decision \<noteq> ''empty computed scope''" by (auto simp: denyReason_def Let_def)
  with denied show ?thesis by simp
qed simp

end

text \<open>The broker's own endpoint: the authenticator of \<open>Auth\<close> and the client of \<open>Githubapp\<close>.\<close>

interpretation broker: token_endpoint "Authenticate lib ff a" "issuer_names a" "Mint glib c"
    "new_server (Authenticate lib ff a) engine eval (Mint glib c) issuer app"
  for lib ff a glib c engine eval issuer app
  by unfold_locales (simp_all add: new_server_def)



section \<open>Routes\<close>

text \<open>Only \<open>POST /token\<close> does anything: every other request is answered by its route and method
  (200 for a known read, 405 for a known path with another method, 404 otherwise), without an audit
  event, a log line, or a change of the world.\<close>

theorem Handler_routes:
  "if hr_path req = ''/token'' \<and> hr_method req = ''POST''
   then Handler hl sv now later req w = handleToken hl sv now later req w
   else oc_audit (Handler hl sv now later req w) = [] \<and> oc_log (Handler hl sv now later req w) = [] \<and>
     oc_world (Handler hl sv now later req w) = w \<and>
     re_status (oc_reply (Handler hl sv now later req w)) =
       (if hr_path req \<in> set get_routes
        then if hr_method req = ''GET'' \<or> hr_method req = ''HEAD'' then 200 else 405
        else if hr_path req = ''/token'' then 405 else 404)"
proof (cases "hr_path req = ''/token''")
  case True
  moreover have "''/token'' \<notin> set get_routes" by (simp add: get_routes_def)
  ultimately show ?thesis by (simp add: Handler_def Let_def)
next
  case False
  then show ?thesis by (simp add: Handler_def Let_def handleMetadata_def)
qed

end
