(* ===== verification/Broker_Main.thy ===== *)
theory Broker_Main
  imports Discovery Policy_Sound Server_Spec
begin

text \<open>
  The start of the process, \<open>cmd/gh-token-broker/main.go\<close>: \<open>run\<close> loads the configuration, lints it,
  builds the authenticator, the engine and the GitHub client, checks the App's permissions, fetches
  the App's identity and wires the server. What the process gets from outside is the record
  \<open>platform\<close>: the environment, the file system and the libraries the components are parameterised
  with. The result comes with the requests sent to GitHub and the warnings logged. Serving and the
  shutdown are in \<open>Broker_Serve\<close>.

  The properties join the components: what a started broker is, and what it means that it answers a
  request with a token.
\<close>

section \<open>Starting\<close>

record ('y, 'd, 's, 'v, 't, 'p) platform =
  pf_getenv :: "string \<Rightarrow> string"
  pf_read_file :: "string \<Rightarrow> string + string"
  pf_loader :: "('y, 'd, 's) loader"
  pf_schema :: string
  pf_url_parse :: "string \<Rightarrow> url option"
  pf_provider :: "'v provider_lib"
  pf_oidc :: "(key_set, 't) oidc_lib"
  pf_format_float :: "float64 \<Rightarrow> string"
  pf_cel :: "'p cel_lib"
  pf_eval :: "'p cel_eval"
  pf_github :: github_lib
  pf_apps_transport :: "int \<Rightarrow> string \<Rightarrow> string + unit"

datatype start_error =
    ConfigFailed config_error
  | AuthFailed "discovery_error setup_error"
  | PolicyFailed policy_error
  | ClientFailed key_error
  | AppFailed mint_error

datatype start_log = LintWarning lint_warning | PolicyWarning string condition_warning

definition load_config :: "('y, 'd, 's, 'v, 't, 'p) platform \<Rightarrow> string \<Rightarrow> config_error + Config" where
  "load_config pf configPath =
     (let raw = pf_getenv pf ''GH_TOKEN_BROKER_CONFIG''; port = pf_getenv pf ''PORT'' in
      if raw \<noteq> '''' then LoadFromBytes (pf_loader pf) (pf_url_parse pf) (pf_schema pf) port raw
      else Load (pf_loader pf) (pf_url_parse pf) (pf_schema pf) port (pf_read_file pf configPath))"

text \<open>\<open>auth.New\<close>: every issuer is discovered for its own keys.\<close>

definition auth_New ::
  "('y, 'd, 's, 'v, 't, 'p) platform \<Rightarrow> OIDCIssuer list \<Rightarrow> duration \<Rightarrow>
   discovery_error setup_error + key_set Authenticator" where
  "auth_New pf issuers skew =
     newAuthenticator issuers skew (\<lambda>iss. discover (pf_provider pf) (pf_url_parse pf) (iss_issuer iss))"

definition run ::
  "('y, 'd, 's, 'v, 't, 'p) platform \<Rightarrow> string \<Rightarrow>
   (start_error + Config \<times> ('p, request list) Server) \<times> request list \<times> start_log list" where
  "run pf configPath =
     (case load_config pf configPath of
        Inl e \<Rightarrow> (Inl (ConfigFailed e), [], [])
      | Inr cfg \<Rightarrow>
          (let log1 = map LintWarning (Lint cfg) in
           case auth_New pf (oidc_issuers (cfg_oidc cfg)) (seconds (oidc_skew (cfg_oidc cfg))) of
             Inl e \<Rightarrow> (Inl (AuthFailed e), [], log1)
           | Inr authn \<Rightarrow>
               (case New (pf_cel pf) cfg of
                  (Inl e, ws) \<Rightarrow> (Inl (PolicyFailed e), [], log1 @ map (\<lambda>(p, w). PolicyWarning p w) ws)
                | (Inr engine, ws) \<Rightarrow>
                    (let log2 = log1 @ map (\<lambda>(p, w). PolicyWarning p w) ws in
                     case new_client (pf_apps_transport pf) (pf_read_file pf) (pf_getenv pf) (cfg_app cfg) of
                       Inl e \<Rightarrow> (Inl (ClientFailed e), [], log2)
                     | Inr ghClient \<Rightarrow>
                         (case ValidateAppPermissions (pf_github pf) (AggregateGrantPermissions cfg) [] of
                            (Inl e, t) \<Rightarrow> (Inl (AppFailed e), t, log2)
                          | (Inr _, t) \<Rightarrow>
                              (case FetchAppIdentity (pf_github pf) ghClient t of
                                 (Inl e, t') \<Rightarrow> (Inl (AppFailed e), t', log2)
                               | (Inr (_, ghClient'), t') \<Rightarrow>
                                   (Inr (cfg, new_server
                                      (Authenticate (pf_oidc pf) (pf_format_float pf) authn)
                                      engine (pf_eval pf) (Mint (pf_github pf) ghClient')
                                      (srv_issuer (cfg_server cfg)) (cl_app_identity ghClient')),
                                    t', log2)))))))"

text \<open>What a successful start went through.\<close>

lemma run_Inr:
  assumes "run pf path = (Inr (cfg, sv), t, logs)"
  obtains authn engine ws c t1 identity c' where
    "load_config pf path = Inr cfg"
    "auth_New pf (oidc_issuers (cfg_oidc cfg)) (seconds (oidc_skew (cfg_oidc cfg))) = Inr authn"
    "New (pf_cel pf) cfg = (Inr engine, ws)"
    "new_client (pf_apps_transport pf) (pf_read_file pf) (pf_getenv pf) (cfg_app cfg) = Inr c"
    "ValidateAppPermissions (pf_github pf) (AggregateGrantPermissions cfg) [] = (Inr (), t1)"
    "FetchAppIdentity (pf_github pf) c t1 = (Inr (identity, c'), t)"
    "sv = new_server (Authenticate (pf_oidc pf) (pf_format_float pf) authn) engine (pf_eval pf)
       (Mint (pf_github pf) c') (srv_issuer (cfg_server cfg)) (cl_app_identity c')"
    "logs = map LintWarning (Lint cfg) @ map (\<lambda>(p, w). PolicyWarning p w) ws"
  using assms unfolding run_def Let_def
  by (auto split: sum.splits prod.splits)

lemma load_config_Inr:
  assumes "load_config pf path = Inr cfg"
  obtains port bytes where "LoadFromBytes (pf_loader pf) (pf_url_parse pf) (pf_schema pf) port bytes = Inr cfg"
  using assms by (auto simp: load_config_def Load_def Let_def result_iff split: if_splits)

lemma load_config_ok: "load_config pf path = Inr cfg \<Longrightarrow> config_ok (pf_url_parse pf) cfg"
  by (erule load_config_Inr, rule LoadFromBytes_config(1))

section \<open>What a started broker guarantees\<close>

text \<open>C37. A broker that starts has a valid configuration and an App that is sufficient for it: unless no
  policy grants anything, GitHub described the App with permissions that cover every grant of every
  policy. On the way it sent at most five requests to GitHub, all of them reads except for a token
  that can only read metadata.\<close>

theorem run_validated:
  assumes run: "run pf path = (Inr (cfg, sv), t, logs)"
  shows "config_ok (pf_url_parse pf) cfg \<and>
    (gm_lookup (AggregateGrantPermissions cfg) = Map.empty \<or>
      (\<exists>name actual. apps_answer (pf_github pf) (gl_manifest (pf_github pf)) []
          (apiVersionTransport (get_request Apps ''app'' [])) (name, actual) \<and>
        (\<forall>p\<in>set (cfg_policies cfg). Satisfies (policy_grant p) actual))) \<and>
    length t \<le> 5 \<and>
    list_all (\<lambda>q. rq_method q = ''GET'' \<or> rq_body q = TokenBody None (Some (gm_of [(''metadata'', ''read'')]))) t"
proof -
  from run_Inr [OF run] obtain c t1 identity c' where load: "load_config pf path = Inr cfg"
    and val: "ValidateAppPermissions (pf_github pf) (AggregateGrantPermissions cfg) [] = (Inr (), t1)"
    and fetch: "FetchAppIdentity (pf_github pf) c t1 = (Inr (identity, c'), t)" by metis
  have "Satisfies (policy_grant p) (AggregateGrantPermissions cfg)" if "p \<in> set (cfg_policies cfg)" for p
    using ag.foldl_upper [of "policy_grant p" "map policy_grant (cfg_policies cfg)" gm_empty] that
    by (simp add: AggregateGrantPermissions_def foldl_map)
  then have "gm_lookup (AggregateGrantPermissions cfg) = Map.empty \<or>
      (\<exists>name actual. apps_answer (pf_github pf) (gl_manifest (pf_github pf)) []
          (apiVersionTransport (get_request Apps ''app'' [])) (name, actual) \<and>
        (\<forall>p\<in>set (cfg_policies cfg). Satisfies (policy_grant p) actual))"
    using val validate_app_iff [of "pf_github pf" "AggregateGrantPermissions cfg" "[]"]
    by (meson Satisfies_trans)
  moreover have t1: "t1 = [] \<or> t1 = [apiVersionTransport (get_request Apps ''app'' [])]"
    using validate_app_trace [of "pf_github pf" "AggregateGrantPermissions cfg" "[]"] val by simp
  moreover obtain new where "t = t1 @ new" "length new \<le> 4"
    "list_all (\<lambda>q. rq_method q = ''GET'' \<or> rq_body q = TokenBody None (Some (gm_of [(''metadata'', ''read'')]))) new"
    using FetchAppIdentity_requests [of "pf_github pf" c t1] fetch by auto
  moreover have "rq_method (apiVersionTransport (get_request Apps ''app'' [])) = ''GET''"
    by (simp add: apiVersionTransport_def get_request_def)
  ultimately show ?thesis using load_config_ok [OF load] by auto
qed

text \<open>The policy that justifies a permission, in terms of the configuration.\<close>

definition justified_by ::
  "('y, 'd, 's, 'v, 't, 'p) platform \<Rightarrow> Config \<Rightarrow> Identity \<Rightarrow> string \<Rightarrow> string \<Rightarrow> string \<Rightarrow> Policy \<Rightarrow> bool" where
  "justified_by pf cfg ident r k v p \<longleftrightarrow>
     policy_issuer p = id_issuer ident \<and> LevelOrd v \<le> level_at (policy_grant p) k \<and>
     (\<exists>ck prg. cel_compile (pf_cel pf) (policy_condition p) = Inr ck \<and>
        cel_program (pf_cel pf) ck (pol_cost_limit (cfg_policy cfg)) = Inr prg \<and>
        evalBool (pf_eval pf) prg (id_claims ident) \<lparr>req_resource = r, req_resources = [r]\<rparr> = Inr True)"

lemma new_server_simps [simp]:
  "sv_auth (new_server authn engine eval mnt issuer app) = authn"
  "sv_engine (new_server authn engine eval mnt issuer app) = engine"
  "sv_eval (new_server authn engine eval mnt issuer app) = eval"
  "sv_minter (new_server authn engine eval mnt issuer app) = mnt"
  by (simp_all add: new_server_def)

lemma run_decided:
  assumes run: "run pf path = (Inr (cfg, sv), t, logs)"
    and dec: "decided hl sv now req ident resources perms decision l" and allowed: "d_allowed decision"
  shows "\<exists>iss\<in>set (oidc_issuers (cfg_oidc cfg)). \<exists>claims iat expiry.
      token_ok (seconds (oidc_skew (cfg_oidc cfg))) now iss claims iat expiry \<and>
      ident = identity_of (pf_format_float pf) iss claims iat expiry"
    and "r \<in> set resources \<Longrightarrow> gm_lookup perms k = Some v \<Longrightarrow>
      \<exists>p\<in>set (cfg_policies cfg). justified_by pf cfg ident (res_raw r) k v p"
proof -
  from run_Inr [OF run] obtain authn engine ws c' where load: "load_config pf path = Inr cfg"
    and auth: "auth_New pf (oidc_issuers (cfg_oidc cfg)) (seconds (oidc_skew (cfg_oidc cfg))) = Inr authn"
    and new: "New (pf_cel pf) cfg = (Inr engine, ws)"
    and sv: "sv = new_server (Authenticate (pf_oidc pf) (pf_format_float pf) authn) engine (pf_eval pf)
       (Mint (pf_github pf) c') (srv_issuer (cfg_server cfg)) (cl_app_identity c')" by metis
  from dec obtain tok where id: "Authenticate (pf_oidc pf) (pf_format_float pf) authn now tok = Inr ident"
    and ev: "fst (Evaluate (pf_eval pf) engine (policy_input ident resources) perms) = Inr decision"
    unfolding decided_def sv by auto
  show "\<exists>iss\<in>set (oidc_issuers (cfg_oidc cfg)). \<exists>claims iat expiry.
      token_ok (seconds (oidc_skew (cfg_oidc cfg))) now iss claims iat expiry \<and>
      ident = identity_of (pf_format_float pf) iss claims iat expiry"
    by (rule Authenticate_issuer [OF auth [unfolded auth_New_def] id]) blast
  assume "r \<in> set resources" and k: "gm_lookup perms k = Some v"
  then have "res_raw r \<in> set (req_resources (in_request (policy_input ident resources)))"
    by (simp add: policy_input_def RawStrings_def)
  from justified [OF ev allowed this k] obtain cp where cp: "cp \<in> set (policies_of engine (id_issuer ident))"
    "matches_policy (pf_eval pf) (id_claims ident) (res_raw r) cp" "LevelOrd v \<le> level_at (cp_grant cp) k"
    by (auto simp: policy_input_def)
  have "distinct (map iss_name (oidc_issuers (cfg_oidc cfg)))"
    using load_config_ok [OF load] by (simp add: config_ok_def)
  from New_policy_source [OF new cp(1) this] show "\<exists>p\<in>set (cfg_policies cfg). justified_by pf cfg ident (res_raw r) k v p"
    using cp(2,3) unfolding justified_by_def matches_policy_def by metis
qed


text \<open>C36. The aggregate of all configured grants is a ceiling: whatever an engine built from the
  configuration grants for a resource, \<open>AggregateGrantPermissions\<close> covers it. So when
  \<open>ValidateAppPermissions\<close> passes for the aggregate, either nothing at all is grantable or GitHub has
  described the App to hold every permission of the grant, at its level or above (\<open>level_at\<close> is the
  rank of the level a map has for a key, 0 for a key it lacks).\<close>

theorem decision_below_aggregate:
  assumes new: "New lib cfg = (Inr e, w)"
    and ev: "fst (Evaluate eval e inp required) = Inr d" and g: "gm_lookup (d_grants d) r = Some grant"
  shows "(\<forall>k. level_at grant k \<le> level_at (AggregateGrantPermissions cfg) k) \<and>
    (\<forall>github t t'. ValidateAppPermissions github (AggregateGrantPermissions cfg) t = (Inr (), t') \<longrightarrow>
       (\<forall>k. level_at grant k = 0) \<or>
       (\<exists>name held. apps_answer github (gl_manifest github) t
          (apiVersionTransport (get_request Apps ''app'' [])) (name, held) \<and>
          (\<forall>k. level_at grant k \<le> level_at held k)))"
proof (intro conjI allI impI)
  note below = grant_below_aggregate [OF new ev g, unfolded Satisfies_iff_level]
  then show "level_at grant k \<le> level_at (AggregateGrantPermissions cfg) k" for k by blast
  fix github t t'
  assume val: "ValidateAppPermissions github (AggregateGrantPermissions cfg) t = (Inr (), t')"
  then have "\<exists>t'. ValidateAppPermissions github (AggregateGrantPermissions cfg) t = (Inr (), t')" by blast
  then consider "gm_lookup (AggregateGrantPermissions cfg) = Map.empty"
    | name held where "apps_answer github (gl_manifest github) t
        (apiVersionTransport (get_request Apps ''app'' [])) (name, held)"
      "\<forall>k. level_at (AggregateGrantPermissions cfg) k \<le> level_at held k"
    unfolding validate_app_iff Satisfies_iff_level by blast
  then show "(\<forall>k. level_at grant k = 0) \<or>
     (\<exists>name held. apps_answer github (gl_manifest github) t
        (apiVersionTransport (get_request Apps ''app'' [])) (name, held) \<and>
        (\<forall>k. level_at grant k \<le> level_at held k))"
  proof cases
    case 1
    then have "level_at (AggregateGrantPermissions cfg) k = 0" for k
      by (simp add: level_at_def lookup_Normalize)
    with below show ?thesis by (metis le_zero_eq)
  next
    case (2 name held)
    with below show ?thesis by (meson le_trans)
  qed
qed

text \<open>What a successful \<open>Mint\<close> has sent.\<close>

lemma Mint_success:
  assumes m: "Mint lib c owner rs ps w = (Inr token, w')" and rs: "rs \<noteq> []" and kind: "kind_ok (res_kind (hd rs))"
  shows "\<exists>gets q scope. w' = w @ gets @ [q] \<and> length gets \<le> 2 \<and> list_all is_get gets \<and> rq_method q = ''POST'' \<and>
    rq_body q = TokenBody (if res_kind (hd rs) = KindRepo then Some (map res_name rs) else None) (Some scope) \<and>
    gm_lookup scope = gm_lookup (Normalize ps)"
proof -
  obtain gets posts where g: "w' = w @ gets @ posts" "length gets \<le> 2" "length posts \<le> 1"
    and gets: "\<forall>q\<in>set gets. is_get q \<and> rq_url q \<in> set (lookup_urls c (res_kind (hd rs)) owner)"
    and posts: "\<forall>q\<in>set posts. \<exists>scope. rq_method q = ''POST'' \<and>
       rq_body q = TokenBody (if res_kind (hd rs) = KindRepo then Some (map res_name rs) else None) (Some scope) \<and>
       gm_lookup scope = gm_lookup (Normalize ps) \<and> gm_lookup scope \<noteq> Map.empty"
    and ne: "posts = [] \<longrightarrow> (\<exists>e. (Inr token :: mint_error + ScopedToken) = Inl e)"
    using Mint_trace [OF assms] by (elim exE conjE)
  from g(3) ne obtain q where q: "posts = [q]" by (cases posts) auto
  from posts obtain scope where "rq_method q = ''POST''" and "gm_lookup scope = gm_lookup (Normalize ps)" and
    "rq_body q = TokenBody (if res_kind (hd rs) = KindRepo then Some (map res_name rs) else None) (Some scope)"
    unfolding q by auto
  with g(1,2) gets show ?thesis unfolding q list_all_iff by blast
qed

text \<open>C1. End to end: when a started broker answers a request with status 200, then the subject token was
  verified for one configured issuer and is inside its window; the request is a well-formed token
  exchange; every permission of it is, for every requested resource, granted by a configured policy
  of that issuer whose condition held for the caller and that resource; and the broker sent GitHub at
  most two lookups and one token request that names exactly the requested repositories and exactly
  the requested permissions.\<close>

theorem issued_end_to_end:
  assumes run: "run pf path = (Inr (cfg, sv), t, logs)"
    and ok: "re_status (oc_reply (handleToken hl sv now later req w)) = 200"
  shows "\<exists>iss\<in>set (oidc_issuers (cfg_oidc cfg)). \<exists>claims iat expiry ident resources perms decision l.
    token_ok (seconds (oidc_skew (cfg_oidc cfg))) now iss claims iat expiry \<and>
    ident = identity_of (pf_format_float pf) iss claims iat expiry \<and>
    decided hl sv now req ident resources perms decision l \<and>
    (\<forall>r\<in>set resources. \<forall>k v. gm_lookup perms k = Some v \<longrightarrow>
       (\<exists>p\<in>set (cfg_policies cfg). justified_by pf cfg ident (res_raw r) k v p)) \<and>
    (\<exists>gets q scope. oc_world (handleToken hl sv now later req w) = w @ gets @ [q] \<and> length gets \<le> 2 \<and>
       list_all is_get gets \<and> rq_method q = ''POST'' \<and>
       rq_body q = TokenBody (if res_kind (hd resources) = KindRepo then Some (map res_name resources) else None) (Some scope) \<and>
       gm_lookup scope = gm_lookup perms)"
proof -
  from run_Inr [OF run] obtain authn engine c' where
    sv: "sv = new_server (Authenticate (pf_oidc pf) (pf_format_float pf) authn) engine (pf_eval pf)
       (Mint (pf_github pf) c') (srv_issuer (cfg_server cfg)) (cl_app_identity c')" by metis
  obtain ident resources perms decision l token w' where
    i: "issued hl sv now req w ident resources perms decision l token w'"
    using status_issued [OF ok] by blast
  then have dec: "decided hl sv now req ident resources perms decision l" and allowed: "d_allowed decision"
    and m: "Mint (pf_github pf) c' (res_owner (hd resources)) resources perms w = (Inr token, w')"
    by (simp_all add: issued_def sv)
  from dec have parsed: "\<exists>vs. ParseAll vs = Inr resources" and scope: "\<exists>s. decodeScope s = Some perms"
    unfolding decided_def by blast+
  then have rs: "resources \<noteq> []" "kind_ok (res_kind (hd resources))"
    using ParseAll_nonempty ParseAll_kind by (auto simp: kind_ok_def)
  have norm: "gm_lookup (Normalize perms) = gm_lookup perms"
    using scope decodeScope_ok(1) perms_ok_Normalize by blast
  have sent: "\<exists>gets q scope. w' = w @ gets @ [q] \<and> length gets \<le> 2 \<and>
       list_all is_get gets \<and> rq_method q = ''POST'' \<and>
       rq_body q = TokenBody (if res_kind (hd resources) = KindRepo then Some (map res_name resources) else None) (Some scope) \<and>
       gm_lookup scope = gm_lookup perms"
    using Mint_success [OF m rs] unfolding norm .
  have world: "oc_world (handleToken hl sv now later req w) = w'" unfolding issued_outcome [OF i] by simp
  obtain iss :: OIDCIssuer and claims iat expiry where iss: "iss \<in> set (oidc_issuers (cfg_oidc cfg))"
    "token_ok (seconds (oidc_skew (cfg_oidc cfg))) now iss claims iat expiry"
    "ident = identity_of (pf_format_float pf) iss claims iat expiry"
    using run_decided(1) [OF run dec allowed] by blast
  have just: "\<forall>r\<in>set resources. \<forall>k v. gm_lookup perms k = Some v \<longrightarrow>
       (\<exists>p\<in>set (cfg_policies cfg). justified_by pf cfg ident (res_raw r) k v p)"
    using run_decided(2) [OF run dec allowed] by blast
  show ?thesis
    unfolding world
    by (rule bexI [OF _ iss(1)], (rule exI)+, (rule conjI, rule iss(2)), (rule conjI, rule iss(3)),
      (rule conjI, rule dec), rule conjI, rule just, rule sent)
qed

section \<open>A platform for the witnesses\<close>

definition sample_keyed_oidc :: "(key_set, unit) oidc_lib" where
  "sample_keyed_oidc = \<lparr>parse_signed = (\<lambda>algs raw. Inr raw), decode_iss = (\<lambda>payload. Inr ''https://idp.example/ci''),
     verify_token = (\<lambda>ver raw. Inr ()), token_claims = (\<lambda>t. Inr sample_claims)\<rparr>"

definition sample_platform :: "(unit, unit, unit, unit, unit, expr) platform" where
  "sample_platform = \<lparr>pf_getenv = (\<lambda>n. ''''), pf_read_file = (\<lambda>path. Inr ''''), pf_loader = sample_loader,
     pf_schema = '''', pf_url_parse = sample_url_parse,
     pf_provider = \<lparr>new_provider = (\<lambda>tr url. Inr ()), provider_jwks_uri = (\<lambda>p. Inr ''https://idp.example/ci'')\<rparr>,
     pf_oidc = sample_keyed_oidc, pf_format_float = (\<lambda>v. ''0''), pf_cel = sample_lib,
     pf_eval = (\<lambda>ast c req. mini_eval ast c (req_resource req)), pf_github = sample_github,
     pf_apps_transport = (\<lambda>n pem. Inr ())\<rparr>"

lemma sample_load: "load_config sample_platform ''config.yaml'' = Inr sample_config"
  using sample_loaded by (simp add: load_config_def Load_def sample_platform_def)

lemma sample_auth:
  "\<exists>a. auth_New sample_platform (oidc_issuers (cfg_oidc sample_config)) (seconds (oidc_skew (cfg_oidc sample_config))) = Inr a \<and>
    Authenticate sample_keyed_oidc (\<lambda>v. ''0'') a (time_unix 600) ''token'' = Inr sample_identity"
proof -
  let ?a = "auth_New sample_platform (oidc_issuers (cfg_oidc sample_config)) (seconds (oidc_skew (cfg_oidc sample_config)))"
  have *: "case ?a of Inl e \<Rightarrow> False
    | Inr a \<Rightarrow> Authenticate sample_keyed_oidc (\<lambda>v. ''0'') a (time_unix 600) ''token'' = Inr sample_identity"
    by code_simp
  show ?thesis
  proof (cases ?a)
    case (Inl e)
    from * show ?thesis unfolding Inl by simp
  next
    case (Inr a)
    from * show ?thesis unfolding Inr by simp
  qed
qed

lemma sample_engine_allows:
  "\<exists>e w d logs. New sample_lib sample_config = (Inr e, w) \<and>
    Evaluate (\<lambda>ast c req. mini_eval ast c (req_resource req)) e (policy_input sample_identity sample_rs) sample_perms
      = (Inr d, logs) \<and> d_allowed d"
proof -
  let ?ev = "\<lambda>e. Evaluate (\<lambda>ast c req. mini_eval ast c (req_resource req)) e (policy_input sample_identity sample_rs) sample_perms"
  have *: "case fst (New sample_lib sample_config) of Inl _ \<Rightarrow> False
    | Inr e \<Rightarrow> (case fst (?ev e) of Inl _ \<Rightarrow> False | Inr d \<Rightarrow> d_allowed d)"
    by code_simp
  then obtain e where e: "fst (New sample_lib sample_config) = Inr e"
    and d: "case fst (?ev e) of Inl _ \<Rightarrow> False | Inr d \<Rightarrow> d_allowed d"
    by (auto split: sum.splits)
  then obtain d where "fst (?ev e) = Inr d" "d_allowed d" by (auto split: sum.splits)
  with e show ?thesis by (metis prod.collapse)
qed

definition started_client :: Client where
  "started_client = sample_client\<lparr>cl_app_id := 7\<rparr>"

definition validated :: "(mint_error + unit) \<times> request list" where
  "validated = ValidateAppPermissions sample_github (AggregateGrantPermissions sample_config) []"

definition fetched :: "(mint_error + AppIdentity \<times> Client) \<times> request list" where
  "fetched = FetchAppIdentity sample_github started_client (snd validated)"

lemma sample_startup:
  "new_client (pf_apps_transport sample_platform) (pf_read_file sample_platform)
      (pf_getenv sample_platform) (cfg_app sample_config) = Inr started_client"
  "\<exists>t1. validated = (Inr (), t1)"
  "\<exists>ident c' t tok w. fetched = (Inr (ident, c'), t) \<and> Mint sample_github c' ''o'' sample_rs sample_perms t = (Inr tok, w)"
proof -
  show "new_client (pf_apps_transport sample_platform) (pf_read_file sample_platform)
      (pf_getenv sample_platform) (cfg_app sample_config) = Inr started_client"
    by (simp add: new_client_def loadPrivateKey_def sample_platform_def sample_config_def sample_raw_config_def
        applyDefaults_def started_client_def sample_client_def)
  have "fst validated = Inr ()" by code_simp
  then show "\<exists>t1. validated = (Inr (), t1)" by (metis prod.collapse)
  have "case fst fetched of Inl e \<Rightarrow> False
    | Inr ic \<Rightarrow> (case fst (Mint sample_github (snd ic) ''o'' sample_rs sample_perms (snd fetched)) of Inl e \<Rightarrow> False | Inr tok \<Rightarrow> True)"
    by code_simp
  then obtain ic tok where "fst fetched = Inr ic" "fst (Mint sample_github (snd ic) ''o'' sample_rs sample_perms (snd fetched)) = Inr tok"
    by (auto split: sum.splits)
  then show "\<exists>ident c' t tok w. fetched = (Inr (ident, c'), t) \<and> Mint sample_github c' ''o'' sample_rs sample_perms t = (Inr tok, w)"
    by (metis prod.collapse)
qed

lemma sample_started:
  "\<exists>sv t logs. run sample_platform ''config.yaml'' = (Inr (sample_config, sv), t, logs) \<and>
    re_status (oc_reply (handleToken sample_http sv (time_unix 600) (time_unix 601) sample_request t)) = 200"
proof -
  obtain a where a: "auth_New sample_platform (oidc_issuers (cfg_oidc sample_config)) (seconds (oidc_skew (cfg_oidc sample_config))) = Inr a"
    and id: "Authenticate sample_keyed_oidc (\<lambda>v. ''0'') a (time_unix 600) ''token'' = Inr sample_identity"
    using sample_auth by blast
  obtain e w d l where new: "New sample_lib sample_config = (Inr e, w)" and
    ev: "Evaluate (\<lambda>ast c req. mini_eval ast c (req_resource req)) e (policy_input sample_identity sample_rs) sample_perms
      = (Inr d, l)" and allowed: "d_allowed d"
    using sample_engine_allows by blast
  obtain t1 where t1: "validated = (Inr (), t1)" using sample_startup(2) by blast
  obtain ident c' t tok w' where f: "fetched = (Inr (ident, c'), t)"
    and m: "Mint sample_github c' ''o'' sample_rs sample_perms t = (Inr tok, w')"
    using sample_startup(3) by blast
  define sv where "sv = new_server (Authenticate sample_keyed_oidc (\<lambda>v. ''0'') a) e
    (\<lambda>ast c req. mini_eval ast c (req_resource req)) (Mint sample_github c') (srv_issuer (cfg_server sample_config))
    (cl_app_identity c')"
  have pf: "pf_cel sample_platform = sample_lib" "pf_oidc sample_platform = sample_keyed_oidc"
    "pf_format_float sample_platform = (\<lambda>v. ''0'')" "pf_github sample_platform = sample_github"
    "pf_eval sample_platform = (\<lambda>ast c req. mini_eval ast c (req_resource req))"
    by (simp_all add: sample_platform_def)
  have "\<exists>logs. run sample_platform ''config.yaml'' = (Inr (sample_config, sv), t, logs)"
    using f unfolding run_def Let_def fetched_def
    by (simp add: sample_load a new pf sample_startup(1) t1 [unfolded validated_def] t1 sv_def)
  moreover have "decided sample_http sv (time_unix 600) sample_request sample_identity sample_rs sample_perms d l"
    using sample_form_ok id sample_resources sample_scope ev unfolding decided_def sv_def new_server_simps by blast
  then have "issued sample_http sv (time_unix 600) sample_request t sample_identity sample_rs sample_perms d l tok w'"
    using allowed m by (simp add: issued_def sv_def sample_rs_def repo_resource_def)
  then have "re_status (oc_reply (handleToken sample_http sv (time_unix 600) (time_unix 601) sample_request t)) = 200"
    unfolding issued_outcome [OF \<open>issued _ _ _ _ _ _ _ _ _ _ _ _\<close>] by (simp add: writeJSON_def)
  ultimately show ?thesis by blast
qed

theorem decision_below_aggregate_witness:
  "\<exists>e d grant. fst (New sample_lib sample_config) = Inr e \<and>
    fst (Evaluate (\<lambda>_ _ _. Inr (VBool True)) e (sample_input [''repo:o/a'']) gm_empty) = Inr d \<and>
    gm_lookup (d_grants d) ''repo:o/a'' = Some grant \<and>
    fst (ValidateAppPermissions sample_github (AggregateGrantPermissions sample_config) []) = Inr () \<and>
    ((\<forall>k. level_at grant k = 0) \<or>
     (\<exists>name held. apps_answer sample_github (gl_manifest sample_github) []
        (apiVersionTransport (get_request Apps ''app'' [])) (name, held) \<and>
        (\<forall>k. level_at grant k \<le> level_at held k)))"
proof -
  obtain e w where n: "New sample_lib sample_config = (Inr e, w)" using sample_engine_allows by blast
  let ?eval = "\<lambda>_ _ _. Inr (VBool True)"
  have "en_max_repositories e = 256"
    using New_Inr(1) [OF n] by (simp add: sample_config_def sample_raw_config_def applyDefaults_def)
  then obtain d where d: "fst (Evaluate ?eval e (sample_input [''repo:o/a'']) gm_empty) = Inr d"
    by (cases "fst (Evaluate ?eval e (sample_input [''repo:o/a'']) gm_empty)")
      (auto simp: Evaluate_cap sample_input_def)
  then obtain grant where g: "gm_lookup (d_grants d) ''repo:o/a'' = Some grant"
    by (auto simp: Evaluate_fields(4) sample_input_def)
  obtain t1 where v: "ValidateAppPermissions sample_github (AggregateGrantPermissions sample_config) [] = (Inr (), t1)"
    using sample_startup(2) unfolding validated_def by blast
  from decision_below_aggregate [OF n d g] v have
    "(\<forall>k. level_at grant k = 0) \<or>
     (\<exists>name held. apps_answer sample_github (gl_manifest sample_github) []
        (apiVersionTransport (get_request Apps ''app'' [])) (name, held) \<and>
        (\<forall>k. level_at grant k \<le> level_at held k))" by blast
  with n d g v show ?thesis by (intro exI [of _ e] exI [of _ d] exI [of _ grant]) simp
qed

theorem run_validated_witness:
  "\<exists>sv t logs. run sample_platform ''config.yaml'' = (Inr (sample_config, sv), t, logs) \<and> length t \<le> 5"
proof -
  obtain sv t logs where run: "run sample_platform ''config.yaml'' = (Inr (sample_config, sv), t, logs)"
    using sample_started by blast
  from run_validated [OF run] run show ?thesis by blast
qed

theorem issued_end_to_end_witness:
  "\<exists>sv t logs. run sample_platform ''config.yaml'' = (Inr (sample_config, sv), t, logs) \<and>
    (\<exists>gets q. oc_world (handleToken sample_http sv (time_unix 600) (time_unix 601) sample_request t) = t @ gets @ [q] \<and>
      rq_method q = ''POST'')"
proof -
  obtain sv t logs where run: "run sample_platform ''config.yaml'' = (Inr (sample_config, sv), t, logs)"
    and ok: "re_status (oc_reply (handleToken sample_http sv (time_unix 600) (time_unix 601) sample_request t)) = 200"
    using sample_started by blast
  from issued_end_to_end [OF run ok] run show ?thesis by blast
qed

end
