(* ===== verification/Mint_Replay.thy ===== *)
theory Mint_Replay
  imports Githubapp
begin

text \<open>
  Minting request by request. The handlers of the broker run concurrently, so between two requests of one
  \<open>Mint\<close> others can go out, and the network may answer the second one differently for it. An operation
  that talks to GitHub is resumed by replaying it: over the answers it has received so far
  (\<open>replay\<close>) it either asks for one more request or has its result.

  Two facts make this an account of the code: an operation sends nothing that depends on answers it does
  not have yet (\<open>stepwise\<close>), and replaying the answers the network gives without interruption is the
  operation itself (\<open>uninterrupted\<close>). Both are shown for the combinators the operations are built from
  and collected in \<open>replays\<close>.
\<close>

type_synonym answer = "string + http_response"

definition replay :: "github_lib \<Rightarrow> answer list \<Rightarrow> github_lib" where
  "replay lib answers = lib\<lparr>gl_net := (\<lambda>t q. if length t < length answers then answers ! length t else Inl '''')\<rparr>"

named_theorems replays \<open>operations that can be replayed\<close>

lemma replay_simps [simp]:
  "gl_net (replay lib as) t q = (if length t < length as then as ! length t else Inl '''')"
  "gl_new_request (replay lib as) = gl_new_request lib"
  "gl_apps_request (replay lib as) = gl_apps_request lib"
  "gl_apps_check (replay lib as) = gl_apps_check lib"
  "gl_installation (replay lib as) = gl_installation lib"
  "gl_token_response (replay lib as) = gl_token_response lib"
  by (simp_all add: replay_def)

section \<open>Nothing depends on answers to come\<close>

definition agree :: "nat \<Rightarrow> answer list \<Rightarrow> answer list \<Rightarrow> bool" where
  "agree n as bs \<longleftrightarrow> n \<le> length as \<and> n \<le> length bs \<and> take n as = take n bs"

definition extends :: "(github_lib \<Rightarrow> 'a io) \<Rightarrow> bool" where
  "extends m \<longleftrightarrow> (\<forall>lib t. \<exists>new. snd (m lib t) = t @ new)"

definition stepwise :: "(github_lib \<Rightarrow> 'a io) \<Rightarrow> bool" where
  "stepwise m \<longleftrightarrow> extends m \<and> (\<forall>lib as bs t n. agree n as bs \<longrightarrow>
     take (Suc n) (snd (m (replay lib as) t)) = take (Suc n) (snd (m (replay lib bs) t)) \<and>
     (length (snd (m (replay lib as) t)) \<le> n \<longrightarrow> m (replay lib bs) t = m (replay lib as) t))"

text \<open>
  \<open>uninterrupted\<close>: the requests the operation adds to a trace \<open>t\<close>, and the answers the network gave to them;
  over these answers it does the same from any other trace \<open>u\<close>, whatever answers follow.
\<close>

definition answers_of :: "github_lib \<Rightarrow> request list \<Rightarrow> request list \<Rightarrow> answer list" where
  "answers_of lib t qs = map (\<lambda>i. gl_net lib (t @ take i qs) (qs ! i)) [0..<length qs]"

definition uninterrupted :: "(github_lib \<Rightarrow> 'a io) \<Rightarrow> bool" where
  "uninterrupted m \<longleftrightarrow> (\<forall>lib t. \<exists>r qs. m lib t = (r, t @ qs) \<and>
     (\<forall>as extra u. length u = length as \<longrightarrow> m (replay lib (as @ answers_of lib t qs @ extra)) u = (r, u @ qs)))"

text \<open>Sequencing, where the continuation also sees an error.\<close>

definition then_io :: "'a io \<Rightarrow> (mint_error + 'a \<Rightarrow> 'b io) \<Rightarrow> 'b io" where
  "then_io m k = (\<lambda>t. case m t of (r, t') \<Rightarrow> k r t')"

lemma bind_io_then: "bind_io m f = then_io m (\<lambda>r. case r of Inl e \<Rightarrow> fail e | Inr x \<Rightarrow> f x)"
  by (auto simp: bind_io_def then_io_def fail_def fun_eq_iff split: sum.split prod.split)

lemma stepwise_then:
  assumes m: "stepwise m" and k: "\<And>r. stepwise (\<lambda>lib. k lib r)"
  shows "stepwise (\<lambda>lib. then_io (m lib) (k lib))"
proof -
  have ext: "extends (\<lambda>lib. then_io (m lib) (k lib))"
    using m k unfolding stepwise_def extends_def then_io_def
    by (metis (no_types, lifting) append_assoc case_prod_beta)
  moreover have "take (Suc n) (snd (then_io (m (replay lib as)) (k (replay lib as)) t)) =
        take (Suc n) (snd (then_io (m (replay lib bs)) (k (replay lib bs)) t)) \<and>
      (length (snd (then_io (m (replay lib as)) (k (replay lib as)) t)) \<le> n \<longrightarrow>
        then_io (m (replay lib bs)) (k (replay lib bs)) t = then_io (m (replay lib as)) (k (replay lib as)) t)"
    if agree: "agree n as bs" for lib as bs t n
  proof -
    obtain r1 t1 where a: "m (replay lib as) t = (r1, t1)" by force
    obtain r2 t2 where b: "m (replay lib bs) t = (r2, t2)" by force
    obtain n1 where n1: "snd (k (replay lib as) r1 t1) = t1 @ n1" using k unfolding stepwise_def extends_def by blast
    obtain n2 where n2: "snd (k (replay lib bs) r2 t2) = t2 @ n2" using k unfolding stepwise_def extends_def by blast
    from m agree have same: "take (Suc n) t1 = take (Suc n) t2" "length t1 \<le> n \<longrightarrow> (r2, t2) = (r1, t1)"
      unfolding stepwise_def using a b by (metis snd_conv)+
    show ?thesis
    proof (cases "length t1 \<le> n")
      case True
      with same(2) have "r2 = r1" "t2 = t1" by auto
      with k agree show ?thesis unfolding stepwise_def then_io_def a b by auto
    next
      case False
      with same(1) have "Suc n \<le> length t2" by (metis length_take min.absorb_iff2 not_less_eq_eq)
      with False same(1) show ?thesis unfolding then_io_def a b by (simp add: n1 n2)
    qed
  qed
  ultimately show ?thesis unfolding stepwise_def by blast
qed

lemma answers_of_append: "answers_of lib t (qs @ qs') = answers_of lib t qs @ answers_of lib (t @ qs) qs'"
  unfolding answers_of_def
  by (rule nth_equalityI) (auto simp: nth_append)

lemma length_answers_of [simp]: "length (answers_of lib t qs) = length qs"
  by (simp add: answers_of_def)

lemma uninterrupted_then:
  assumes m: "uninterrupted m" and k: "\<And>r. uninterrupted (\<lambda>lib. k lib r)"
  shows "uninterrupted (\<lambda>lib. then_io (m lib) (k lib))"
  unfolding uninterrupted_def
proof (intro allI)
  fix lib t
  obtain r qs where m1: "m lib t = (r, t @ qs)" and
    m2: "\<And>as extra u. length u = length as \<Longrightarrow> m (replay lib (as @ answers_of lib t qs @ extra)) u = (r, u @ qs)"
    using m unfolding uninterrupted_def by blast
  obtain r' qs' where k1: "k lib r (t @ qs) = (r', (t @ qs) @ qs')" and
    k2: "\<And>as extra u. length u = length as \<Longrightarrow>
      k (replay lib (as @ answers_of lib (t @ qs) qs' @ extra)) r u = (r', u @ qs')"
    using k unfolding uninterrupted_def by blast
  have "then_io (m (replay lib (as @ answers_of lib t (qs @ qs') @ extra)))
      (k (replay lib (as @ answers_of lib t (qs @ qs') @ extra))) u = (r', u @ qs @ qs')"
    if u: "length u = length as" for as extra u
    using m2 [OF u, of "answers_of lib (t @ qs) qs' @ extra"] k2 [of "u @ qs" "as @ answers_of lib t qs" extra] u
    by (simp add: then_io_def answers_of_append)
  then show "\<exists>r qs. then_io (m lib) (k lib) t = (r, t @ qs) \<and>
      (\<forall>as extra u. length u = length as \<longrightarrow>
        then_io (m (replay lib (as @ answers_of lib t qs @ extra))) (k (replay lib (as @ answers_of lib t qs @ extra))) u = (r, u @ qs))"
    by (intro exI [of _ r'] exI [of _ "qs @ qs'"]) (simp add: then_io_def m1 k1)
qed

section \<open>The operations\<close>

definition replayable :: "(github_lib \<Rightarrow> 'a io) \<Rightarrow> bool" where
  "replayable m \<longleftrightarrow> stepwise m \<and> uninterrupted m"

lemma replayable_then [replays]:
  "replayable m \<Longrightarrow> (\<And>r. replayable (\<lambda>lib. k lib r)) \<Longrightarrow> replayable (\<lambda>lib. then_io (m lib) (k lib))"
  by (simp add: replayable_def stepwise_then uninterrupted_then)

lemma replayable_lift [replays]: "(\<And>lib as. f (replay lib as) = f lib) \<Longrightarrow> replayable (\<lambda>lib. lift_r (f lib))"
  by (simp add: replayable_def stepwise_def extends_def uninterrupted_def lift_r_def answers_of_def)

lemma replayable_ret [replays]: "replayable (\<lambda>lib. ret x)"
  using replayable_lift [of "\<lambda>lib. Inr x"] by (simp add: lift_r_def ret_def)

lemma replayable_fail [replays]: "replayable (\<lambda>lib. fail e)"
  using replayable_lift [of "\<lambda>lib. Inl e"] by (simp add: lift_r_def fail_def)

lemma replayable_bind [replays]:
  assumes "replayable m" and "\<And>x. replayable (\<lambda>lib. f lib x)"
  shows "replayable (\<lambda>lib. bind_io (m lib) (f lib))"
  unfolding bind_io_then
proof (rule replayable_then [OF assms(1)])
  show "replayable (\<lambda>lib. case r of Inl e \<Rightarrow> fail e | Inr x \<Rightarrow> f lib x)" for r
    using assms(2) by (cases r) (simp_all add: replayable_fail)
qed

lemma replayable_send [replays]: "replayable (\<lambda>lib. send lib err q)"
proof -
  have "as ! length t = bs ! length t" if "agree n as bs" "Suc (length t) \<le> n" for n as bs and t :: "request list"
    using that unfolding agree_def by (metis Suc_le_lessD nth_take)
  then have "stepwise (\<lambda>lib. send lib err q)"
    by (auto simp: stepwise_def extends_def send_def Let_def agree_def)
  moreover have "uninterrupted (\<lambda>lib. send lib err q)"
    by (auto simp: uninterrupted_def send_def Let_def answers_of_def nth_append)
  ultimately show ?thesis by (simp add: replayable_def)
qed

lemma replayable_if [replays]:
  "(b \<Longrightarrow> replayable m) \<Longrightarrow> (\<not> b \<Longrightarrow> replayable m') \<Longrightarrow> replayable (\<lambda>lib. if b then m lib else m' lib)"
  by (cases b) simp_all

lemma replayable_option [replays]:
  "(y = None \<Longrightarrow> replayable m) \<Longrightarrow> (\<And>x. y = Some x \<Longrightarrow> replayable (\<lambda>lib. f lib x)) \<Longrightarrow>
    replayable (\<lambda>lib. case y of None \<Rightarrow> m lib | Some x \<Rightarrow> f lib x)"
  by (cases y) simp_all

lemma replayable_apps_get [replays]:
  "(\<And>lib as. decode (replay lib as) = decode lib) \<Longrightarrow> replayable (\<lambda>lib. apps_get lib build err (decode lib) path)"
  unfolding apps_get_def by (intro replays) simp_all

lemma replayable_try_paths [replays]: "replayable (\<lambda>lib. try_paths lib owner e paths)"
proof (induction paths arbitrary: e)
  case Nil
  show ?case unfolding try_paths.simps by (rule replayable_fail)
next
  case (Cons path paths)
  have step: "try_paths lib owner e (path # paths) =
      then_io (apps_get lib BuildInstallationRequest (NoInstallation owner) (gl_installation lib) path)
        (\<lambda>r. case r of Inr inst \<Rightarrow> ret inst
          | Inl err \<Rightarrow> (case err of BuildInstallationRequest s \<Rightarrow> fail err | _ \<Rightarrow> try_paths lib owner err paths))" for lib
    by (auto simp: then_io_def ret_def fail_def fun_eq_iff split: prod.split sum.split mint_error.split)
  show ?case
    unfolding step
  proof (rule replayable_then)
    show "replayable (\<lambda>lib. case r of Inr inst \<Rightarrow> ret inst
          | Inl err \<Rightarrow> (case err of BuildInstallationRequest s \<Rightarrow> fail err | _ \<Rightarrow> try_paths lib owner err paths))" for r
    proof (cases r)
      case (Inl err)
      then show ?thesis by (cases err) (simp_all add: Cons.IH replays)
    qed (simp add: replays)
  qed (simp add: replays)
qed

lemma replayable_Mint: "replayable (\<lambda>lib. Mint lib c owner resources perms)"
  unfolding Mint_def resolveInstallation_def resolveEnterpriseInstallation_def mint_with_def MintScopedToken_def
    MintInstallationToken_def post_token_def Let_def
  by (intro replays) simp_all

text \<open>What the properties use of it.\<close>

lemma Mint_extends: "\<exists>qs. snd (Mint lib c owner resources perms t) = t @ qs"
  using replayable_Mint unfolding replayable_def stepwise_def extends_def by blast

lemma Mint_next:
  "take (Suc (length as)) (snd (Mint (replay lib (as @ bs)) c owner resources perms t)) =
    take (Suc (length as)) (snd (Mint (replay lib as) c owner resources perms t))"
  using replayable_Mint [of c owner resources perms] unfolding replayable_def stepwise_def
  by (metis (no_types, lifting) agree_def append_eq_conv_conj le_add1 length_append order_refl take_all)

lemma Mint_uninterrupted:
  "\<exists>r qs. Mint lib c owner resources perms t = (r, t @ qs) \<and>
    Mint (replay lib (answers_of lib t qs)) c owner resources perms [] = (r, qs)"
  using replayable_Mint [of c owner resources perms] unfolding replayable_def uninterrupted_def
  by (metis append_Nil append_Nil2 list.size(3))

end
