(* ===== verification/Broker_Serve.thy ===== *)
theory Broker_Serve
  imports Broker_Main Mint_Replay "HOL-Library.Multiset"
begin

text \<open>
  The life of the process, \<open>cmd/gh-token-broker/main.go\<close> and \<open>signal.go\<close>: \<open>main\<close> with its flags, and the
  serving broker as a state machine. Its steps are those of the goroutines: a connection is accepted,
  the handler of a request begins, sends a request to GitHub and gets the answer, has its outcome, writes
  its audit events, and answers; a signal starts the shutdown; \<open>main\<close> returns. The steps of different
  handlers interleave freely, also between two requests to GitHub of one handler (theory \<open>Mint_Replay\<close>).

  \<open>net/http\<close> is the documented behaviour of its server: \<open>Shutdown\<close> stops the listener, at which
  \<open>ListenAndServe\<close> returns \<open>ErrServerClosed\<close> at once, while handlers that already run go on.
\<close>

section \<open>The process\<close>

datatype signal = SIGINT | SIGTERM | OtherSignal nat

text \<open>The signals that cancel the context of \<open>signalContext\<close>.\<close>

definition signalContext :: "signal \<Rightarrow> bool" where
  "signalContext s = (s \<in> set [SIGINT, SIGTERM])"

record http_server =
  hs_addr :: string
  hs_read_header_timeout :: duration
  hs_read_timeout :: duration
  hs_write_timeout :: duration

definition httpServer :: "Config \<Rightarrow> http_server" where
  "httpServer cfg = \<lparr>hs_addr = srv_bind (cfg_server cfg), hs_read_header_timeout = 5 * Second,
     hs_read_timeout = 10 * Second, hs_write_timeout = 15 * Second\<rparr>"

record flags =
  fl_config :: string
  fl_version :: bool

definition default_flags :: flags where
  "default_flags = \<lparr>fl_config = ''config.yaml'', fl_version = False\<rparr>"

text \<open>What \<open>main\<close> comes to before it serves: the version is printed, the start failed and the process
  exits with code 1, or the broker listens.\<close>

datatype 'p launch =
    PrintedVersion
  | Failed nat start_error
  | Serving http_server Config "('p, request list) Server"

definition main :: "('y, 'd, 's, 'v, 't, 'p) platform \<Rightarrow> flags \<Rightarrow> 'p launch \<times> request list \<times> start_log list" where
  "main pf fl =
     (if fl_version fl then (PrintedVersion, [], [])
      else case run pf (fl_config fl) of
        (Inl err, t, logs) \<Rightarrow> (Failed 1 err, t, logs)
      | (Inr (cfg, sv), t, logs) \<Rightarrow> (Serving (httpServer cfg) cfg sv, t, logs))"

text \<open>
  A handler over the answers it has received from GitHub so far. Its outcome carries the requests it
  wants to have sent: if there is one more than answers, that is the next request; otherwise the
  handler is done. The clock readings of a handler are \<open>now\<close> and \<open>later\<close>.
\<close>

definition handle_with ::
  "http_lib \<Rightarrow> ('p, request list) Server \<Rightarrow> github_lib \<Rightarrow> Client \<Rightarrow> answer list \<Rightarrow> time \<Rightarrow> time \<Rightarrow>
   http_request \<Rightarrow> request list outcome" where
  "handle_with hl sv lib c answers now later req =
     Handler hl (sv\<lparr>sv_minter := Mint (replay lib answers) c\<rparr>) now later req []"

text \<open>How far the handler of a request has come (at work, with what it has sent and the answers), and
  the state of the serving process.\<close>

datatype stage =
    Accepted (request_of: http_request)
  | Working (request_of: http_request) time time "request list" "answer list"
  | Worked (request_of: http_request) "request list outcome"
  | Audited (request_of: http_request) "request list outcome"
  | Answered (request_of: http_request) "request list outcome"

datatype phase = Listening | ShuttingDown | Exited nat

record process =
  pr_phase :: phase
  pr_requests :: "stage list"
  pr_world :: "request list"
  pr_audit :: "Event list"

definition listening :: "request list \<Rightarrow> process" where
  "listening w = \<lparr>pr_phase = Listening, pr_requests = [], pr_world = w, pr_audit = []\<rparr>"

definition running :: "process \<Rightarrow> bool" where
  "running P = (case pr_phase P of Exited _ \<Rightarrow> False | _ \<Rightarrow> True)"

text \<open>
  The steps, for a server whose minter is the client \<open>c\<close> over the network of \<open>lib\<close>. \<open>step_exit\<close> is the
  end of \<open>run\<close> (\<open>main.go\<close>), where the server listens, is signalled and stops: \<open>ListenAndServe\<close> has
  returned \<open>ErrServerClosed\<close>, so \<open>run\<close> returns no error and \<open>main\<close> returns; nothing in \<open>run\<close> waits for
  the goroutine that called \<open>Shutdown\<close>. The stages of one handler follow \<open>handleToken\<close>
  (\<open>server.go\<close>): \<open>Mint\<close> sends its requests, then \<open>audit.Log\<close> writes the event, then \<open>writeJSON\<close> or
  \<open>writeOAuthError\<close> answers.
\<close>

inductive serve_step ::
  "http_lib \<Rightarrow> ('p, request list) Server \<Rightarrow> github_lib \<Rightarrow> Client \<Rightarrow> process \<Rightarrow> process \<Rightarrow> bool"
  for hl :: http_lib and sv :: "('p, request list) Server" and lib :: github_lib and c :: Client where
  step_accept: "pr_phase P = Listening \<Longrightarrow>
    serve_step hl sv lib c P (P\<lparr>pr_requests := pr_requests P @ [Accepted req]\<rparr>)"
| step_begin: "running P \<Longrightarrow> i < length (pr_requests P) \<Longrightarrow> pr_requests P ! i = Accepted req \<Longrightarrow>
    serve_step hl sv lib c P (P\<lparr>pr_requests := (pr_requests P)[i := Working req now later [] []]\<rparr>)"
| step_send: "running P \<Longrightarrow> i < length (pr_requests P) \<Longrightarrow> pr_requests P ! i = Working req now later sent answers \<Longrightarrow>
    wanted = oc_world (handle_with hl sv lib c answers now later req) \<Longrightarrow> length answers < length wanted \<Longrightarrow>
    q = wanted ! length answers \<Longrightarrow>
    serve_step hl sv lib c P (P\<lparr>pr_requests := (pr_requests P)[i := Working req now later (sent @ [q])
        (answers @ [gl_net lib (pr_world P) q])], pr_world := pr_world P @ [q]\<rparr>)"
| step_work: "running P \<Longrightarrow> i < length (pr_requests P) \<Longrightarrow> pr_requests P ! i = Working req now later sent answers \<Longrightarrow>
    out = handle_with hl sv lib c answers now later req \<Longrightarrow> length (oc_world out) \<le> length answers \<Longrightarrow>
    serve_step hl sv lib c P (P\<lparr>pr_requests := (pr_requests P)[i := Worked req out]\<rparr>)"
| step_audit: "running P \<Longrightarrow> i < length (pr_requests P) \<Longrightarrow> pr_requests P ! i = Worked req out \<Longrightarrow>
    serve_step hl sv lib c P (P\<lparr>pr_requests := (pr_requests P)[i := Audited req out],
      pr_audit := pr_audit P @ oc_audit out\<rparr>)"
| step_answer: "running P \<Longrightarrow> i < length (pr_requests P) \<Longrightarrow> pr_requests P ! i = Audited req out \<Longrightarrow>
    serve_step hl sv lib c P (P\<lparr>pr_requests := (pr_requests P)[i := Answered req out]\<rparr>)"
| step_signal: "pr_phase P = Listening \<Longrightarrow> signalContext s \<Longrightarrow> serve_step hl sv lib c P (P\<lparr>pr_phase := ShuttingDown\<rparr>)"
| step_exit: "pr_phase P = ShuttingDown \<Longrightarrow> serve_step hl sv lib c P (P\<lparr>pr_phase := Exited 0\<rparr>)"
| step_fail: "pr_phase P = Listening \<Longrightarrow> serve_step hl sv lib c P (P\<lparr>pr_phase := Exited 1\<rparr>)"

inductive reachable ::
  "http_lib \<Rightarrow> ('p, request list) Server \<Rightarrow> github_lib \<Rightarrow> Client \<Rightarrow> request list \<Rightarrow> process \<Rightarrow> bool"
  for hl :: http_lib and sv :: "('p, request list) Server" and lib :: github_lib and c :: Client and w :: "request list" where
  reach_start: "reachable hl sv lib c w (listening w)"
| reach_step: "reachable hl sv lib c w P \<Longrightarrow> serve_step hl sv lib c P P' \<Longrightarrow> reachable hl sv lib c w P'"

inductive_cases serve_stepE: "serve_step hl sv lib c P P'"
inductive_simps reachable_simps: "reachable hl sv lib c w P"

lemma main_Serving:
  "main pf fl = (Serving h cfg sv, t, logs) \<longleftrightarrow>
    \<not> fl_version fl \<and> run pf (fl_config fl) = (Inr (cfg, sv), t, logs) \<and> h = httpServer cfg"
  unfolding main_def by (auto split: prod.splits sum.splits)

text \<open>An exited process does nothing more, and a process that shuts down takes no new request.\<close>

lemma serve_step_running: "serve_step hl sv lib c P P' \<Longrightarrow> running P"
  by (erule serve_stepE) (auto simp: running_def)

lemma serve_step_requests:
  "serve_step hl sv lib c P P' \<Longrightarrow> pr_phase P \<noteq> Listening \<Longrightarrow> length (pr_requests P') = length (pr_requests P)"
  by (erule serve_stepE) auto

section \<open>What one request contributes\<close>

text \<open>
  A token request to GitHub is authorised by a request to the broker: the engine decided and allowed it for
  a verified identity of a configured issuer, a configured policy justifies every permission on every
  resource, and the token request names exactly these repositories and permissions.
\<close>

definition authorised ::
  "('y, 'd, 's, 'v, 't, 'p) platform \<Rightarrow> Config \<Rightarrow> http_lib \<Rightarrow> ('p, request list) Server \<Rightarrow> http_request \<Rightarrow> request \<Rightarrow> bool"
  where
  "authorised pf cfg hl sv req q \<longleftrightarrow>
     (\<exists>now ident resources perms decision l. decided hl sv now req ident resources perms decision l \<and> d_allowed decision \<and>
       (\<exists>iss\<in>set (oidc_issuers (cfg_oidc cfg)). \<exists>claims iat expiry.
          token_ok (seconds (oidc_skew (cfg_oidc cfg))) now iss claims iat expiry \<and>
          ident = identity_of (pf_format_float pf) iss claims iat expiry) \<and>
       (\<forall>r\<in>set resources. \<forall>k v. gm_lookup perms k = Some v \<longrightarrow>
          (\<exists>p\<in>set (cfg_policies cfg). justified_by pf cfg ident (res_raw r) k v p)) \<and>
       rq_method q = ''POST'' \<and>
       (\<exists>scope. rq_body q = TokenBody (if res_kind (hd resources) = KindRepo then Some (map res_name resources) else None)
            (Some scope) \<and> gm_lookup scope = gm_lookup perms))"

definition is_token :: "'w outcome \<Rightarrow> bool" where
  "is_token out = (case re_body (oc_reply out) of TokenReply _ \<Rightarrow> True | _ \<Rightarrow> False)"

definition allows :: "Event list \<Rightarrow> nat" where
  "allows evs = length (filter (\<lambda>ev. ev_decision ev = DecisionAllow) evs)"

definition posts :: "request list \<Rightarrow> nat" where
  "posts qs = length (filter (\<lambda>q. rq_method q = ''POST'') qs)"

lemma allows_simps [simp]: "allows [] = 0" "allows (xs @ ys) = allows xs + allows ys"
  "allows [auditDeny op ident resources perms decision reason] = 0"
  "allows [audit_allow ident resources perms decision token] = 1"
  by (simp_all add: allows_def DecisionAllow_def DecisionDeny_def)

lemma posts_pos: "1 \<le> posts qs \<Longrightarrow> \<exists>q\<in>set qs. rq_method q = ''POST''"
  by (induction qs) (auto simp: posts_def split: if_splits)

lemma posts_append [simp]: "posts (xs @ ys) = posts xs + posts ys"
  by (simp add: posts_def)

text \<open>The contribution of a handler: what it sends, and the account of its token.\<close>

definition contributes :: "(http_request \<Rightarrow> request \<Rightarrow> bool) \<Rightarrow> http_request \<Rightarrow> request list outcome \<Rightarrow> bool" where
  "contributes auth req out \<longleftrightarrow>
     (\<forall>q\<in>set (oc_world out). is_get q \<or> auth req q) \<and>
     allows (oc_audit out) \<le> posts (oc_world out) \<and>
     allows (oc_audit out) = (if is_token out then 1 else 0)"

lemma contributes_nothing:
  "oc_world out = [] \<Longrightarrow> allows (oc_audit out) = 0 \<Longrightarrow> \<not> is_token out \<Longrightarrow> contributes auth req out"
  by (simp add: contributes_def)

lemma decided_minter: "decided hl (sv\<lparr>sv_minter := m\<rparr>) = decided hl sv"
  by (simp add: decided_def fun_eq_iff)

text \<open>What \<open>Mint\<close> sends for a request that was decided and allowed.\<close>

lemma Mint_authorised:
  assumes run: "run pf path = (Inr (cfg, sv), t, logs)"
    and dec: "decided hl sv now req ident resources perms decision l" "d_allowed decision"
    and m: "Mint lib c (res_owner (hd resources)) resources perms [] = (res, new)"
  shows "(\<forall>q\<in>set new. is_get q \<or> authorised pf cfg hl sv req q) \<and> ((\<exists>token. res = Inr token) \<longrightarrow> 1 \<le> posts new)"
proof -
  from dec(1) have "\<exists>vs. ParseAll vs = Inr resources" and scope: "\<exists>s. decodeScope s = Some perms"
    unfolding decided_def by blast+
  then have rs: "resources \<noteq> []" "kind_ok (res_kind (hd resources))"
    using ParseAll_nonempty ParseAll_kind by (auto simp: kind_ok_def)
  have norm: "gm_lookup (Normalize perms) = gm_lookup perms"
    using scope decodeScope_ok(1) perms_ok_Normalize by blast
  obtain gets ps where new: "new = [] @ gets @ ps" and "length gets \<le> 2" and "length ps \<le> 1"
    and gets: "\<forall>q\<in>set gets. is_get q \<and> rq_url q \<in> set (lookup_urls c (res_kind (hd resources)) (res_owner (hd resources)))"
    and ps: "\<forall>q\<in>set ps. \<exists>scope. rq_method q = ''POST'' \<and>
       rq_body q = TokenBody (if res_kind (hd resources) = KindRepo then Some (map res_name resources) else None) (Some scope) \<and>
       gm_lookup scope = gm_lookup (Normalize perms) \<and> gm_lookup scope \<noteq> Map.empty"
    and ne: "ps = [] \<longrightarrow> (\<exists>e. res = Inl e)"
    using Mint_trace [OF m rs] by (elim exE conjE)
  have just: "\<forall>r\<in>set resources. \<forall>k v. gm_lookup perms k = Some v \<longrightarrow>
      (\<exists>p\<in>set (cfg_policies cfg). justified_by pf cfg ident (res_raw r) k v p)"
    using run_decided(2) [OF run dec] by blast
  have "authorised pf cfg hl sv req q" if "q \<in> set ps" for q
  proof -
    from ps that have post: "rq_method q = ''POST''" and
      body: "\<exists>scope. rq_body q = TokenBody (if res_kind (hd resources) = KindRepo then Some (map res_name resources) else None)
          (Some scope) \<and> gm_lookup scope = gm_lookup perms"
      unfolding norm by blast+
    show ?thesis
      unfolding authorised_def
      by ((rule exI)+, intro conjI, rule dec(1), rule dec(2), rule run_decided(1) [OF run dec],
        rule just, rule post, rule body)
  qed
  moreover have "1 \<le> posts (gets @ ps)" if "res = Inr token" for token
    using ne ps that by (cases ps) (auto simp: posts_def)
  ultimately show ?thesis using new gets by auto
qed

lemma handleToken_contributes:
  assumes run: "run pf path = (Inr (cfg, sv), t, logs)"
  shows "contributes (authorised pf cfg hl sv) req (handleToken hl (sv\<lparr>sv_minter := Mint lib c\<rparr>) now later req [])"
proof (cases rule: handleToken_cases [of hl "sv\<lparr>sv_minter := Mint lib c\<rparr>" now later req "[]"])
  case (allowed ident resources perms decision l)
  obtain res new where m: "Mint lib c (res_owner (hd resources)) resources perms [] = (res, new)" by force
  have dec: "decided hl sv now req ident resources perms decision l" using allowed(1) by (simp add: decided_minter)
  note new = Mint_authorised [OF run dec allowed(2) m]
  have out: "handleToken hl (sv\<lparr>sv_minter := Mint lib c\<rparr>) now later req [] =
      finish (sv\<lparr>sv_minter := Mint lib c\<rparr>) later ident resources perms decision (policy_logs l) (res, new)"
    unfolding allowed(3) by (simp add: m)
  show ?thesis
  proof (cases res)
    case (Inl err)
    show ?thesis
      unfolding out Inl contributes_def
      by (cases rule: finish_Inl [of "sv\<lparr>sv_minter := Mint lib c\<rparr>" later ident resources perms decision "policy_logs l" err new])
        (use new in \<open>auto simp: is_token_def writeOAuthError_def writeJSON_def\<close>)
  next
    case (Inr token)
    with new show ?thesis
      unfolding out Inr contributes_def finish_Inr by (auto simp: is_token_def writeJSON_def)
  qed
next
  case (refused code desc l)
  then show ?thesis by (intro contributes_nothing) (simp_all add: is_token_def)
next
  case (denied ident resources perms decision l)
  then show ?thesis by (intro contributes_nothing) (simp_all add: is_token_def)
qed

lemma handle_with_contributes:
  assumes run: "run pf path = (Inr (cfg, sv), t, logs)"
  shows "contributes (authorised pf cfg hl sv) req (handle_with hl sv lib c answers now later req)"
proof (cases "hr_path req = ''/token'' \<and> hr_method req = ''POST''")
  case True
  then show ?thesis using handleToken_contributes [OF run] by (simp add: handle_with_def Handler_def)
next
  case False
  let ?sv = "sv\<lparr>sv_minter := Mint (replay lib answers) c\<rparr>"
  have "\<not> is_token (Handler hl ?sv now later req [])"
    using False by (auto simp: Handler_def Let_def is_token_def handleMetadata_def)
  with False show ?thesis
    using Handler_routes [of req hl ?sv now later "[]"] unfolding handle_with_def
    by (intro contributes_nothing) (auto split: if_splits)
qed

section \<open>Handlers that are resumed\<close>

text \<open>A handler calls the minter at most once, and what it does besides does not depend on the minter.\<close>

definition mint_form :: "(request list mint_fun \<Rightarrow> request list \<Rightarrow> request list outcome) \<Rightarrow> bool" where
  "mint_form h \<longleftrightarrow> (\<exists>out. \<forall>m w. h m w = out\<lparr>oc_world := w\<rparr>) \<or>
     (\<exists>owner rs ps f. \<forall>m w. h m w = (f (fst (m owner rs ps w)))\<lparr>oc_world := snd (m owner rs ps w)\<rparr>)"

lemma mint_form_const: "(\<And>m w. h m w = out\<lparr>oc_world := w\<rparr>) \<Longrightarrow> mint_form h"
  unfolding mint_form_def by blast

lemma mint_form_call:
  "(\<And>m w. h m w = (f (fst (m owner rs ps w)))\<lparr>oc_world := snd (m owner rs ps w)\<rparr>) \<Longrightarrow> mint_form h"
  unfolding mint_form_def by blast

lemma bad_request_form: "bad_request code desc events logs w = (bad_request code desc events logs [])\<lparr>oc_world := w\<rparr>"
  by (simp add: bad_request_def)

lemma finish_form:
  "finish (sv\<lparr>sv_minter := m\<rparr>) later ident resources perms decision logs rw =
    (finish sv later ident resources perms decision logs (fst rw, []))\<lparr>oc_world := snd rw\<rparr>"
proof (cases rw)
  case (Pair r w)
  show ?thesis
  proof (cases r)
    case (Inl err)
    then show ?thesis by (cases err) (simp_all add: Pair finish_def bad_request_def)
  qed (simp add: Pair finish_def token_response_def)
qed

lemma exchange_form: "mint_form (\<lambda>m w. exchange (sv\<lparr>sv_minter := m\<rparr>) later ident form w)"
proof (cases "ParseAll (form_all form ''resource'')")
  case (Inl err)
  then show ?thesis by (intro mint_form_const) (simp add: exchange_def, rule bad_request_form)
next
  case res: (Inr resources)
  note owner = Owner_ParseAll [OF res]
  show ?thesis
  proof (cases "decodeScope (form_get form ''scope'')")
    case None
    with res owner show ?thesis by (intro mint_form_const) (simp add: exchange_def, rule bad_request_form)
  next
    case scope: (Some perms)
    obtain v logs where ev: "Evaluate (sv_eval sv) (sv_engine sv)
       \<lparr>in_issuer = id_issuer ident, in_caller = id_claims ident,
        in_request = \<lparr>req_resource = '''', req_resources = RawStrings resources\<rparr>\<rparr> perms = (v, logs)" by force
    show ?thesis
    proof (cases v)
      case (Inl x)
      with res owner scope ev show ?thesis
        by (cases x) (intro mint_form_const, simp add: exchange_def, rule bad_request_form)
    next
      case (Inr decision)
      show ?thesis
      proof (cases "d_allowed decision")
        case True
        then have "exchange (sv\<lparr>sv_minter := m\<rparr>) later ident form w =
            finish (sv\<lparr>sv_minter := m\<rparr>) later ident resources perms decision (policy_logs logs)
              (m (res_owner (hd resources)) resources perms w)" for m w
          using res owner scope ev Inr by (simp add: exchange_def)
        then show ?thesis unfolding finish_form
          by (rule mint_form_call [where f = "\<lambda>r. finish sv later ident resources perms decision (policy_logs logs) (r, [])"])
      next
        case False
        with res owner scope ev Inr show ?thesis
          by (intro mint_form_const) (simp add: exchange_def, rule bad_request_form)
      qed
    qed
  qed
qed

lemma handleToken_form: "mint_form (\<lambda>m w. handleToken hl (sv\<lparr>sv_minter := m\<rparr>) now later req w)"
proof (cases "hl_parse_media hl (hr_content_type req) = Some ''application/x-www-form-urlencoded''")
  case False
  then show ?thesis by (intro mint_form_const) (simp add: handleToken_def, rule bad_request_form)
next
  case media: True
  show ?thesis
  proof (cases "parse_form hl req")
    case None
    with media show ?thesis by (intro mint_form_const) (simp add: handleToken_def, rule bad_request_form)
  next
    case form: (Some form)
    show ?thesis
    proof (cases "check_form form")
      case (Inl e)
      with media form show ?thesis
        by (cases e) (intro mint_form_const, simp add: handleToken_def, rule bad_request_form)
    next
      case tok: (Inr tok)
      show ?thesis
      proof (cases "sv_auth sv now tok")
        case (Inl e)
        with media form tok show ?thesis
          by (intro mint_form_const) (simp add: handleToken_def, rule bad_request_form)
      next
        case (Inr ident)
        with media form tok show ?thesis using exchange_form [of sv later ident form] by (simp add: handleToken_def)
      qed
    qed
  qed
qed

lemma Handler_form: "mint_form (\<lambda>m w. Handler hl (sv\<lparr>sv_minter := m\<rparr>) now later req w)"
proof (cases "hr_path req = ''/token'' \<and> hr_method req = ''POST''")
  case True
  then show ?thesis using handleToken_form by (simp add: Handler_def)
next
  case False
  then have "Handler hl (sv\<lparr>sv_minter := m\<rparr>) now later req w = (Handler hl sv now later req [])\<lparr>oc_world := w\<rparr>" for m w
    by (auto simp: Handler_def Let_def handleMetadata_def)
  then show ?thesis by (rule mint_form_const)
qed

text \<open>What a handler has sent does not change with further answers, and without interruption a handler
  that is resumed does what the handler does in one go.\<close>

lemma handle_with_next:
  "take (Suc (length as)) (oc_world (handle_with hl sv lib c (as @ bs) now later req)) =
    take (Suc (length as)) (oc_world (handle_with hl sv lib c as now later req))"
proof -
  from Handler_form [of hl sv now later req] show ?thesis
    unfolding mint_form_def handle_with_def by (elim disjE exE) (simp_all add: Mint_next)
qed

lemma handle_with_uninterrupted:
  fixes hl sv lib c now later req w
  defines "out \<equiv> Handler hl (sv\<lparr>sv_minter := Mint lib c\<rparr>) now later req w"
  shows "\<exists>qs. oc_world out = w @ qs \<and>
    handle_with hl sv lib c (answers_of lib w qs) now later req = out\<lparr>oc_world := qs\<rparr>"
  using Handler_form [of hl sv now later req] unfolding mint_form_def
proof (elim disjE exE)
  fix out0
  assume "\<forall>m w. Handler hl (sv\<lparr>sv_minter := m\<rparr>) now later req w = out0\<lparr>oc_world := w\<rparr>"
  then show ?thesis unfolding out_def handle_with_def by (intro exI [of _ "[]"]) simp
next
  fix owner rs ps f
  assume form: "\<forall>m w. Handler hl (sv\<lparr>sv_minter := m\<rparr>) now later req w =
    (f (fst (m owner rs ps w)))\<lparr>oc_world := snd (m owner rs ps w)\<rparr>"
  obtain r qs where "Mint lib c owner rs ps w = (r, w @ qs)" "Mint (replay lib (answers_of lib w qs)) c owner rs ps [] = (r, qs)"
    using Mint_uninterrupted by blast
  then show ?thesis unfolding out_def handle_with_def by (intro exI [of _ qs]) (simp add: form)
qed

section \<open>The invariant of the process\<close>

text \<open>What a handler has sent, and the allow events it has decided on, written and answered.\<close>

fun sent_by :: "stage \<Rightarrow> request list" where
  "sent_by (Accepted req) = []"
| "sent_by (Working req now later sent answers) = sent"
| "sent_by (Worked req out) = oc_world out"
| "sent_by (Audited req out) = oc_world out"
| "sent_by (Answered req out) = oc_world out"

fun audited_allows :: "stage \<Rightarrow> nat" where
  "audited_allows (Audited req out) = allows (oc_audit out)"
| "audited_allows (Answered req out) = allows (oc_audit out)"
| "audited_allows _ = 0"

fun answered_token :: "stage \<Rightarrow> nat" where
  "answered_token (Answered req out) = (if is_token out then 1 else 0)"
| "answered_token _ = 0"

definition tokens_answered :: "process \<Rightarrow> nat" where
  "tokens_answered P = sum_list (map answered_token (pr_requests P))"

text \<open>A handler at work has sent what it wanted to send over the answers it has.\<close>

fun stage_ok :: "(answer list \<Rightarrow> time \<Rightarrow> time \<Rightarrow> http_request \<Rightarrow> request list outcome) \<Rightarrow>
    (http_request \<Rightarrow> request \<Rightarrow> bool) \<Rightarrow> stage \<Rightarrow> bool" where
  "stage_ok h auth (Accepted req) \<longleftrightarrow> True"
| "stage_ok h auth (Working req now later sent answers) \<longleftrightarrow>
     length sent = length answers \<and> take (length answers) (oc_world (h answers now later req)) = sent"
| "stage_ok h auth (Worked req out) \<longleftrightarrow> contributes auth req out"
| "stage_ok h auth (Audited req out) \<longleftrightarrow> contributes auth req out"
| "stage_ok h auth (Answered req out) \<longleftrightarrow> contributes auth req out"

text \<open>The requests to GitHub since the start are an interleaving of what the handlers have sent.\<close>

definition serve_inv ::
  "(answer list \<Rightarrow> time \<Rightarrow> time \<Rightarrow> http_request \<Rightarrow> request list outcome) \<Rightarrow> (http_request \<Rightarrow> request \<Rightarrow> bool) \<Rightarrow>
   request list \<Rightarrow> process \<Rightarrow> bool" where
  "serve_inv h auth t P \<longleftrightarrow>
     (\<exists>new. pr_world P = t @ new \<and> mset new = sum_list (map (mset \<circ> sent_by) (pr_requests P))) \<and>
     allows (pr_audit P) = sum_list (map audited_allows (pr_requests P)) \<and>
     (\<forall>s\<in>set (pr_requests P). stage_ok h auth s)"

text \<open>A step that moves one request to its next stage.\<close>

lemma sum_stage_update:
  "i < length xs \<Longrightarrow> sum_list (map f (xs[i := y])) + f (xs ! i) = sum_list (map f xs) + f y"
  for f :: "'a \<Rightarrow> 'b::comm_monoid_add"
proof (induction xs arbitrary: i)
  case (Cons x xs)
  then show ?case by (cases i) (simp_all add: ac_simps)
qed simp

lemma serve_inv_update:
  assumes inv: "serve_inv h auth t P" and i: "i < length (pr_requests P)" and old: "pr_requests P ! i = s"
    and reqs: "pr_requests P' = (pr_requests P)[i := s']" and ok: "stage_ok h auth s'"
    and world: "pr_world P' = pr_world P @ qs" and sent: "sent_by s' = sent_by s @ qs"
    and audit: "allows (pr_audit P') + audited_allows s = allows (pr_audit P) + audited_allows s'"
  shows "serve_inv h auth t P'"
proof -
  note upd = sum_stage_update [OF i, of _ s', unfolded old]
  obtain new where new: "pr_world P = t @ new" "mset new = sum_list (map (mset \<circ> sent_by) (pr_requests P))"
    using inv unfolding serve_inv_def by blast
  have "sum_list (map (mset \<circ> sent_by) (pr_requests P')) + mset (sent_by s) = mset new + mset qs + mset (sent_by s)"
    using upd [of "mset \<circ> sent_by"] by (simp add: reqs new(2) sent ac_simps)
  then have "pr_world P' = t @ (new @ qs) \<and> mset (new @ qs) = sum_list (map (mset \<circ> sent_by) (pr_requests P'))"
    by (simp add: world new(1))
  moreover have "allows (pr_audit P') = sum_list (map audited_allows (pr_requests P'))"
    using inv audit upd [of audited_allows] by (simp add: serve_inv_def reqs)
  moreover have "\<forall>s\<in>set (pr_requests P'). stage_ok h auth s"
    using inv ok by (auto simp: serve_inv_def reqs dest!: set_update_subset_insert [THEN subsetD])
  ultimately show ?thesis unfolding serve_inv_def by blast
qed

lemma serve_inv_step:
  assumes inv: "serve_inv (handle_with hl sv lib c) auth t P" and step: "serve_step hl sv lib c P P'"
    and handler: "\<And>answers now later req. contributes auth req (handle_with hl sv lib c answers now later req)"
  shows "serve_inv (handle_with hl sv lib c) auth t P'"
proof -
  let ?h = "handle_with hl sv lib c"
  have stage: "stage_ok ?h auth s" if "i < length (pr_requests P)" "pr_requests P ! i = s" for i s
    using inv that unfolding serve_inv_def by (metis nth_mem)
  note update = serve_inv_update [OF inv]
  from step show ?thesis
  proof cases
    case (step_accept req)
    then show ?thesis using inv by (auto simp: serve_inv_def)
  next
    case (step_begin i req now later)
    then show ?thesis by (intro update [OF step_begin(3,4), of _ "Working req now later [] []" "[]"]) simp_all
  next
    case (step_send i req now later sent answers wanted q)
    let ?a = "gl_net lib (pr_world P) q"
    from stage [OF step_send(3,4)] have sent: "length sent = length answers" "take (length answers) wanted = sent"
      by (simp_all add: step_send(5))
    have "take (Suc (length answers)) (oc_world (?h (answers @ [?a]) now later req)) = sent @ [q]"
      using sent(2) step_send(6) by (simp add: handle_with_next step_send(5) [symmetric] take_Suc_conv_app_nth step_send(7))
    with sent(1) step_send show ?thesis
      by (intro update [OF step_send(3,4), of _ "Working req now later (sent @ [q]) (answers @ [?a])" "[q]"]) simp_all
  next
    case (step_work i req now later sent answers out)
    from stage [OF step_work(3,4)] step_work(5,6) have "oc_world out = sent" by simp
    with handler [of req answers now later] step_work show ?thesis
      by (intro update [OF step_work(3,4), of _ "Worked req out" "[]"]) simp_all
  next
    case (step_audit i req out)
    then show ?thesis
      using stage [OF step_audit(3,4)] by (intro update [OF step_audit(3,4), of _ "Audited req out" "[]"]) simp_all
  next
    case (step_answer i req out)
    then show ?thesis
      using stage [OF step_answer(3,4)] by (intro update [OF step_answer(3,4), of _ "Answered req out" "[]"]) simp_all
  qed (use inv in \<open>simp_all add: serve_inv_def\<close>)
qed

lemma lifetime_inv:
  assumes "main pf fl = (Serving srv cfg sv, t, logs)" and "reachable hl sv lib c t P"
  shows "serve_inv (handle_with hl sv lib c) (authorised pf cfg hl sv) t P"
  using assms(2)
proof (induction rule: reachable.induct)
  case reach_start
  show ?case by (simp add: serve_inv_def listening_def)
next
  case (reach_step P P')
  have "run pf (fl_config fl) = (Inr (cfg, sv), t, logs)" using assms(1) by (simp add: main_Serving)
  note handler = handle_with_contributes [OF this]
  from serve_inv_step [OF reach_step.IH reach_step.hyps(2) handler] show ?case .
qed

text \<open>What every stage has sent is authorised, and accounts for the allow events.\<close>

lemma sent_authorised:
  assumes ok: "stage_ok (handle_with hl sv lib c) auth s" and q: "q \<in> set (sent_by s)"
    and handler: "\<And>answers now later req. contributes auth req (handle_with hl sv lib c answers now later req)"
  shows "is_get q \<or> auth (request_of s) q"
proof (cases s)
  case (Working req now later sent answers)
  with ok q have "q \<in> set (oc_world (handle_with hl sv lib c answers now later req))" by (auto dest: in_set_takeD)
  with handler [of req answers now later] show ?thesis by (simp add: contributes_def Working)
qed (use ok q in \<open>auto simp: contributes_def\<close>)

lemma stage_accounts:
  "stage_ok h auth s \<Longrightarrow> answered_token s \<le> audited_allows s \<and> audited_allows s \<le> posts (sent_by s)"
  by (cases s) (auto simp: contributes_def)

lemma posts_interleaved:
  "mset new = sum_list (map (mset \<circ> sent_by) ss) \<Longrightarrow> posts new = sum_list (map (posts \<circ> sent_by) ss)"
proof -
  have size: "posts qs = size (filter_mset (\<lambda>q. rq_method q = ''POST'') (mset qs))" for qs
    by (simp add: posts_def flip: mset_filter)
  assume "mset new = sum_list (map (mset \<circ> sent_by) ss)"
  moreover have "size (filter_mset (\<lambda>q. rq_method q = ''POST'') (sum_list (map (mset \<circ> sent_by) ss))) =
      sum_list (map (posts \<circ> sent_by) ss)" by (induction ss) (simp_all add: size)
  ultimately show ?thesis by (simp add: size)
qed

lemma accounted:
  assumes "serve_inv h auth t P"
  shows "tokens_answered P \<le> allows (pr_audit P) \<and> allows (pr_audit P) \<le> posts (drop (length t) (pr_world P))"
proof -
  obtain new where new: "pr_world P = t @ new" "mset new = sum_list (map (mset \<circ> sent_by) (pr_requests P))"
    and audit: "allows (pr_audit P) = sum_list (map audited_allows (pr_requests P))"
    and ok: "\<forall>s\<in>set (pr_requests P). stage_ok h auth s"
    using assms unfolding serve_inv_def by blast
  have "answered_token s \<le> audited_allows s" "audited_allows s \<le> (posts \<circ> sent_by) s" if "s \<in> set (pr_requests P)" for s
    using stage_accounts ok that by fastforce+
  then have "tokens_answered P \<le> allows (pr_audit P)" "allows (pr_audit P) \<le> posts new"
    unfolding tokens_answered_def audit posts_interleaved [OF new(2)] by (auto intro: sum_list_mono)
  then show ?thesis by (simp add: new(1))
qed

section \<open>Properties of the whole life of a broker\<close>

text \<open>C2. Over the whole life of a broker, whatever requests arrive and however their handlers
  interleave, request by request to GitHub, with or without a shutdown: everything sent to GitHub
  after the start is a read or a token request that some request to the broker authorises, a request
  with a verified identity of a configured issuer, allowed by the engine, and justified by a configured
  policy for every permission on every resource the token is for.\<close>

theorem lifetime_authorised:
  assumes "main pf fl = (Serving srv cfg sv, t, logs)" and "reachable hl sv (pf_github pf) c t P"
  shows "\<exists>new. pr_world P = t @ new \<and>
    (\<forall>q\<in>set new. is_get q \<or> (\<exists>s\<in>set (pr_requests P). authorised pf cfg hl sv (request_of s) q))"
proof -
  have run: "run pf (fl_config fl) = (Inr (cfg, sv), t, logs)" using assms(1) by (simp add: main_Serving)
  obtain new where new: "pr_world P = t @ new" "mset new = sum_list (map (mset \<circ> sent_by) (pr_requests P))"
    and ok: "\<forall>s\<in>set (pr_requests P). stage_ok (handle_with hl sv (pf_github pf) c) (authorised pf cfg hl sv) s"
    using lifetime_inv [OF assms] unfolding serve_inv_def by blast
  have "is_get q \<or> (\<exists>s\<in>set (pr_requests P). authorised pf cfg hl sv (request_of s) q)" if "q \<in> set new" for q
  proof -
    from that have "q \<in># sum_list (map (mset \<circ> sent_by) (pr_requests P))" using new(2) by (metis set_mset_mset)
    then obtain s where s: "s \<in> set (pr_requests P)" "q \<in> set (sent_by s)" by (induction "pr_requests P") auto
    with ok sent_authorised [OF _ s(2) handle_with_contributes [OF run]] show ?thesis by blast
  qed
  with new(1) show ?thesis by blast
qed

text \<open>C12. The audit log accounts for the tokens at every moment of a broker's life: every token that was
  answered has an allow event in the log already, and there are never more allow events than token
  requests sent to GitHub after the start.\<close>

theorem lifetime_accounted:
  assumes "main pf fl = (Serving srv cfg sv, t, logs)" and "reachable hl sv (pf_github pf) c t P"
  shows "tokens_answered P \<le> allows (pr_audit P) \<and> allows (pr_audit P) \<le> posts (drop (length t) (pr_world P))"
  using lifetime_inv [OF assms] by (rule accounted)

section \<open>A request handled without interruption\<close>

text \<open>The request \<open>i\<close> of a running process is at work, has sent \<open>k\<close> of its requests and nothing else happens.\<close>

definition mid_run :: "process \<Rightarrow> nat \<Rightarrow> http_request \<Rightarrow> time \<Rightarrow> time \<Rightarrow> request list \<Rightarrow> answer list \<Rightarrow> nat \<Rightarrow> process" where
  "mid_run P i req now later qs as k =
     P\<lparr>pr_requests := (pr_requests P)[i := Working req now later (take k qs) (take k as)],
       pr_world := pr_world P @ take k qs\<rparr>"

lemma mid_run_reachable:
  assumes reach: "reachable hl sv lib c w P" and P: "running P" "i < length (pr_requests P)" "pr_requests P ! i = Accepted req"
    and all: "oc_world (handle_with hl sv lib c (answers_of lib (pr_world P) qs) now later req) = qs"
  shows "k \<le> length qs \<Longrightarrow> reachable hl sv lib c w (mid_run P i req now later qs (answers_of lib (pr_world P) qs) k)"
proof (induction k)
  case 0
  have "serve_step hl sv lib c P (mid_run P i req now later qs (answers_of lib (pr_world P) qs) 0)"
    using step_begin [OF P, of hl sv lib c now later] by (simp add: mid_run_def)
  with reach show ?case by (rule reach_step)
next
  case (Suc k)
  let ?as = "answers_of lib (pr_world P) qs"
  let ?mid = "mid_run P i req now later qs ?as"
  let ?wanted = "oc_world (handle_with hl sv lib c (take k ?as) now later req)"
  from Suc.prems have k: "k < length qs" "length (take k ?as) = k" by simp_all
  have "take (Suc k) ?wanted = take (Suc k) qs"
    using handle_with_next [of "take k ?as" hl sv lib c "drop k ?as" now later req] k by (simp add: all)
  then have wanted: "k < length ?wanted" "?wanted ! k = qs ! k"
    using k(1) by (metis Suc_leI length_take less_Suc_eq_le min.absorb_iff2 min.commute linorder_not_le take_all,
      metis lessI nth_take)
  have at: "running (?mid k)" "i < length (pr_requests (?mid k))"
    "pr_requests (?mid k) ! i = Working req now later (take k qs) (take k ?as)"
    using P by (simp_all add: mid_run_def running_def)
  have "gl_net lib (pr_world (?mid k)) (qs ! k) = ?as ! k"
    using k(1) by (simp add: mid_run_def answers_of_def)
  then have "serve_step hl sv lib c (?mid k) (?mid (Suc k))"
    using step_send [OF at refl, of hl sv lib c, OF _ refl] wanted k
    by (simp add: mid_run_def take_Suc_conv_app_nth)
  with Suc show ?case by (meson Suc_leD reach_step)
qed

text \<open>
  The machine refines the handler: a request of a running process can be handled without interruption, and
  then the state changes as the function \<open>Handler\<close> says, with the minter on the network as it is.
\<close>

definition after_work :: "process \<Rightarrow> nat \<Rightarrow> stage \<Rightarrow> request list outcome \<Rightarrow> process" where
  "after_work P i s out = P\<lparr>pr_requests := (pr_requests P)[i := s], pr_world := oc_world out\<rparr>"

lemma work_uninterrupted:
  fixes hl sv lib c now later req P
  defines "out \<equiv> Handler hl (sv\<lparr>sv_minter := Mint lib c\<rparr>) now later req (pr_world P)"
  assumes reach: "reachable hl sv lib c w P" and P: "running P" "i < length (pr_requests P)" "pr_requests P ! i = Accepted req"
  shows "\<exists>qs. oc_world out = pr_world P @ qs \<and> reachable hl sv lib c w (after_work P i (Worked req (out\<lparr>oc_world := qs\<rparr>)) out)"
proof -
  obtain qs where qs: "oc_world out = pr_world P @ qs"
    and h: "handle_with hl sv lib c (answers_of lib (pr_world P) qs) now later req = out\<lparr>oc_world := qs\<rparr>"
    using handle_with_uninterrupted [where hl = hl and sv = sv and lib = lib and c = c and now = now and later = later
      and req = req and w = "pr_world P"] unfolding out_def by blast
  let ?as = "answers_of lib (pr_world P) qs"
  let ?P = "mid_run P i req now later qs ?as (length qs)"
  have "reachable hl sv lib c w ?P" by (rule mid_run_reachable [OF reach P]) (simp_all add: h)
  moreover have "serve_step hl sv lib c ?P (after_work P i (Worked req (out\<lparr>oc_world := qs\<rparr>)) out)"
    using step_work [of ?P i req now later qs ?as "out\<lparr>oc_world := qs\<rparr>" hl sv lib c] P h
    by (cases P) (simp add: mid_run_def after_work_def running_def qs)
  ultimately show ?thesis using qs by (meson reach_step)
qed

lemma answer_uninterrupted:
  fixes hl sv lib c now later req P
  defines "out \<equiv> Handler hl (sv\<lparr>sv_minter := Mint lib c\<rparr>) now later req (pr_world P)"
  assumes "reachable hl sv lib c w P" and P: "running P" "i < length (pr_requests P)" "pr_requests P ! i = Accepted req"
  shows "\<exists>qs. oc_world out = pr_world P @ qs \<and> reachable hl sv lib c w
    ((after_work P i (Answered req (out\<lparr>oc_world := qs\<rparr>)) out)\<lparr>pr_audit := pr_audit P @ oc_audit out\<rparr>)"
proof -
  obtain qs where qs: "oc_world out = pr_world P @ qs"
    and reach: "reachable hl sv lib c w (after_work P i (Worked req (out\<lparr>oc_world := qs\<rparr>)) out)"
    using work_uninterrupted [OF assms(2) P] unfolding out_def by blast
  let ?out = "out\<lparr>oc_world := qs\<rparr>"
  let ?P = "\<lambda>s. (after_work P i s out)\<lparr>pr_audit := pr_audit P @ oc_audit out\<rparr>"
  have "serve_step hl sv lib c (after_work P i (Worked req ?out) out) (?P (Audited req ?out))"
    using step_audit [of "after_work P i (Worked req ?out) out" i req ?out hl sv lib c] P
    by (cases P) (simp add: after_work_def running_def)
  moreover have "serve_step hl sv lib c (?P (Audited req ?out)) (?P (Answered req ?out))"
    using step_answer [of "?P (Audited req ?out)" i req ?out hl sv lib c] P
    by (cases P) (simp add: after_work_def running_def)
  ultimately show ?thesis using qs reach by (meson reach_step)
qed

text \<open>A fresh process with one accepted request.\<close>

definition accepted :: "request list \<Rightarrow> http_request \<Rightarrow> process" where
  "accepted w req = \<lparr>pr_phase = Listening, pr_requests = [Accepted req], pr_world = w, pr_audit = []\<rparr>"

lemma accepted_reachable: "reachable hl sv lib c w (accepted w req)"
  using reach_step [OF reach_start step_accept [of "listening w" hl sv lib c req]] by (simp add: listening_def accepted_def)

lemma accepted_simps: "running (accepted w req)" "0 < length (pr_requests (accepted w req))"
  "pr_requests (accepted w req) ! 0 = Accepted req" "pr_world (accepted w req) = w"
  by (simp_all add: accepted_def running_def)

text \<open>C38. The shutdown does not wait for the handlers: for every request there is a run in which the signal
  arrives after the work of its handler and before its audit event. The process exits with code 0,
  whatever the handler sends to GitHub (a token request included) has been sent, and there is neither
  an audit event nor an answer.\<close>

theorem exit_unaudited:
  "\<exists>P. reachable hl sv lib c w P \<and> pr_phase P = Exited 0 \<and>
    pr_world P = oc_world (Handler hl (sv\<lparr>sv_minter := Mint lib c\<rparr>) now later req w) \<and>
    pr_audit P = [] \<and> tokens_answered P = 0"
proof -
  let ?out = "Handler hl (sv\<lparr>sv_minter := Mint lib c\<rparr>) now later req w"
  obtain qs where reach: "reachable hl sv lib c w (after_work (accepted w req) 0 (Worked req (?out\<lparr>oc_world := qs\<rparr>)) ?out)"
    using work_uninterrupted [where hl = hl and sv = sv and lib = lib and c = c and now = now and later = later,
      OF accepted_reachable accepted_simps(1-3) [of w req]]
    unfolding accepted_simps(4) by blast
  let ?P = "after_work (accepted w req) 0 (Worked req (?out\<lparr>oc_world := qs\<rparr>)) ?out"
  have "serve_step hl sv lib c ?P (?P\<lparr>pr_phase := ShuttingDown\<rparr>)"
    by (rule step_signal [of _ SIGTERM]) (simp_all add: after_work_def accepted_def signalContext_def)
  moreover have "serve_step hl sv lib c (?P\<lparr>pr_phase := ShuttingDown\<rparr>) (?P\<lparr>pr_phase := ShuttingDown, pr_phase := Exited 0\<rparr>)"
    by (rule step_exit) simp
  ultimately have "reachable hl sv lib c w (?P\<lparr>pr_phase := ShuttingDown, pr_phase := Exited 0\<rparr>)"
    using reach by (meson reach_step)
  then show ?thesis
    by (intro exI, intro conjI, assumption) (simp_all add: after_work_def accepted_def tokens_answered_def)
qed

section \<open>The sample broker\<close>

lemma run_minter:
  assumes "main pf fl = (Serving srv cfg sv, t, logs)"
  shows "\<exists>c. sv\<lparr>sv_minter := Mint (pf_github pf) c\<rparr> = sv"
proof -
  have "run pf (fl_config fl) = (Inr (cfg, sv), t, logs)" using assms by (simp add: main_Serving)
  from run_Inr [OF this] obtain authn engine c where
    sv: "sv = new_server (Authenticate (pf_oidc pf) (pf_format_float pf) authn) engine (pf_eval pf)
       (Mint (pf_github pf) c) (srv_issuer (cfg_server cfg)) (cl_app_identity c)" by metis
  then show ?thesis by (intro exI [of _ c]) (simp add: new_server_def)
qed

lemma sample_serving:
  "\<exists>srv sv t logs c. main sample_platform default_flags = (Serving srv sample_config sv, t, logs) \<and>
    sv\<lparr>sv_minter := Mint (pf_github sample_platform) c\<rparr> = sv \<and>
    is_token (Handler sample_http sv (time_unix 600) (time_unix 601) sample_request t)"
proof -
  obtain sv t logs where run: "run sample_platform ''config.yaml'' = (Inr (sample_config, sv), t, logs)"
    and ok: "re_status (oc_reply (handleToken sample_http sv (time_unix 600) (time_unix 601) sample_request t)) = 200"
    using sample_started by blast
  from run have m: "main sample_platform default_flags = (Serving (httpServer sample_config) sample_config sv, t, logs)"
    by (simp add: main_Serving default_flags_def)
  have "Handler hl sv now later sample_request w = handleToken hl sv now later sample_request w" for hl now later w
    by (simp add: Handler_def sample_request_def)
  then have "is_token (Handler sample_http sv (time_unix 600) (time_unix 601) sample_request t)"
    using status_issued [OF ok] by (auto simp: issued_outcome is_token_def writeJSON_def)
  with m run_minter [OF m] show ?thesis by blast
qed

text \<open>A broker that has answered one request with a token.\<close>

lemma sample_life:
  "\<exists>srv sv t logs c P. main sample_platform default_flags = (Serving srv sample_config sv, t, logs) \<and>
    reachable sample_http sv (pf_github sample_platform) c t P \<and> tokens_answered P = 1 \<and>
    (\<forall>s\<in>set (pr_requests P). request_of s = sample_request)"
proof -
  obtain srv sv t logs c where m: "main sample_platform default_flags = (Serving srv sample_config sv, t, logs)"
    and sv: "sv\<lparr>sv_minter := Mint (pf_github sample_platform) c\<rparr> = sv"
    and tok: "is_token (Handler sample_http sv (time_unix 600) (time_unix 601) sample_request t)"
    using sample_serving by blast
  let ?out = "Handler sample_http sv (time_unix 600) (time_unix 601) sample_request t"
  obtain qs where reach: "reachable sample_http sv (pf_github sample_platform) c t
      ((after_work (accepted t sample_request) 0 (Answered sample_request (?out\<lparr>oc_world := qs\<rparr>)) ?out)
        \<lparr>pr_audit := pr_audit (accepted t sample_request) @ oc_audit ?out\<rparr>)"
    using answer_uninterrupted [where hl = sample_http and sv = sv and lib = "pf_github sample_platform" and c = c
      and now = "time_unix 600" and later = "time_unix 601", OF accepted_reachable accepted_simps(1-3) [of t sample_request]]
    unfolding accepted_simps(4) sv by blast
  show ?thesis
    by ((rule exI)+, rule conjI, rule m, rule conjI, rule reach)
      (use tok in \<open>simp add: after_work_def accepted_def tokens_answered_def is_token_def\<close>)
qed

theorem lifetime_accounted_witness:
  "\<exists>srv sv t logs P. main sample_platform default_flags = (Serving srv sample_config sv, t, logs) \<and>
    tokens_answered P = 1 \<and> 1 \<le> posts (drop (length t) (pr_world P))"
proof -
  obtain srv sv t logs c P where m: "main sample_platform default_flags = (Serving srv sample_config sv, t, logs)"
    and reach: "reachable sample_http sv (pf_github sample_platform) c t P" and tok: "tokens_answered P = 1"
    using sample_life by blast
  from lifetime_accounted [OF m reach] tok have "1 \<le> posts (drop (length t) (pr_world P))" by linarith
  with m tok show ?thesis by blast
qed

theorem lifetime_authorised_witness:
  "\<exists>srv sv t logs q. main sample_platform default_flags = (Serving srv sample_config sv, t, logs) \<and>
    authorised sample_platform sample_config sample_http sv sample_request q"
proof -
  obtain srv sv t logs c P where m: "main sample_platform default_flags = (Serving srv sample_config sv, t, logs)"
    and reach: "reachable sample_http sv (pf_github sample_platform) c t P" and tok: "tokens_answered P = 1"
    and req: "\<forall>s\<in>set (pr_requests P). request_of s = sample_request"
    using sample_life by blast
  obtain new where new: "pr_world P = t @ new"
    "\<forall>q\<in>set new. is_get q \<or> (\<exists>s\<in>set (pr_requests P). authorised sample_platform sample_config sample_http sv (request_of s) q)"
    using lifetime_authorised [OF m reach] by blast
  have "1 \<le> posts new" using accounted [OF lifetime_inv [OF m reach]] tok by (simp add: new(1))
  then obtain q where "q \<in> set new" "rq_method q = ''POST''" using posts_pos by blast
  with new(2) req have "authorised sample_platform sample_config sample_http sv sample_request q" by (auto simp: is_get_def)
  with m show ?thesis by blast
qed

end
