(* ===== verification/Schema_Gen.thy ===== *)
theory Schema_Gen
  imports Config "HOL-Library.Word"
begin

text \<open>
  The generator of the configuration's JSON schema, \<open>cmd/gen-schema/main.go\<close>: the schema of a permission
  map, the pass that closes object schemas, the extraction of definitions, and \<open>main\<close> that composes
  them. A schema is a tree: the reflector runs without references, \<open>mapper\<close> builds a fresh tree on
  every call, and the one shared pointer (\<open>FalseSchema\<close>) is never written to. The keywords the generator
  does not look at are a list of an arbitrary type.

  Parameters: the reflector, and the JSON-schema validator with the laws \<open>schema_laws\<close> of the keywords
  the generator writes. Finding the module root and writing the file are not modelled.
\<close>

section \<open>Schemas\<close>

datatype json =
    JNull
  | JBool bool
  | JNumber string
  | JString string
  | is_JArray: JArray "json list"
  | is_JObject: JObject "json gomap"

datatype 'k schema = Schema
  (sc_boolean: "bool option")
  (sc_ref: string)
  (sc_type: string)
  (sc_enum: "json list")
  (sc_minProperties: "64 word option")
  (sc_properties: "(string \<times> 'k schema) list option")
  (sc_items: "'k schema option")
  (sc_additionalProperties: "'k schema option")
  (sc_rest: "'k list")

text \<open>The root carries four more fields; a definition may be a nil pointer.\<close>

record 'k document =
  doc_version :: string
  doc_id :: string
  doc_title :: string
  doc_definitions :: "(string \<times> 'k schema option) list option"
  doc_schema :: "'k schema"

definition FalseSchema :: "'k schema" where
  "FalseSchema = Schema (Some False) '''' '''' [] None None None None []"

definition ref_schema :: "string \<Rightarrow> 'k schema" where
  "ref_schema r = Schema None r '''' [] None None None None []"

definition enum_schema :: "string list \<Rightarrow> 'k schema" where
  "enum_schema vs = Schema None '''' '''' (map JString vs) None None None None []"

text \<open>\<open>s.Properties.Set(k, x)\<close> on a map that is not nil, and \<open>s.Items = x\<close>.\<close>

fun set_property :: "string \<Rightarrow> 'k schema \<Rightarrow> 'k schema \<Rightarrow> 'k schema" where
  "set_property k x (Schema b r ty en mn props items add rest) =
     Schema b r ty en mn (map_option (AList.update k x) props) items add rest"

fun set_items :: "'k schema \<Rightarrow> 'k schema \<Rightarrow> 'k schema" where
  "set_items x (Schema b r ty en mn props items add rest) = Schema b r ty en mn props (Some x) add rest"

section \<open>The generator\<close>

text \<open>The keys are sorted, so the order in which the catalog is visited does not matter.\<close>

definition permissionsSchema :: "'k schema" where
  "permissionsSchema =
     (let keys = sort (map fst Catalog);
          props = map (\<lambda>key. (key, enum_schema (case map_of Catalog key of None \<Rightarrow> [] | Some ls \<Rightarrow> ls))) keys
      in Schema None '''' ''object'' [] (Some 1) (Some props) None (Some FalseSchema) [])"

datatype go_type = PermissionsType | OtherType string

definition mapper :: "go_type \<Rightarrow> 'k schema option" where
  "mapper t = (if t = PermissionsType then Some permissionsSchema else None)"

primrec setAdditionalPropertiesFalse :: "'k schema \<Rightarrow> 'k schema" where
  "setAdditionalPropertiesFalse (Schema b r ty en mn props items add rest) =
     Schema b r ty en mn
       (map_option (map (map_prod id setAdditionalPropertiesFalse)) props)
       (map_option setAdditionalPropertiesFalse items)
       (if ty = ''object'' \<and> props \<noteq> None \<and> add = None then Some FalseSchema else add)
       rest"

text \<open>
  \<open>extractDefs\<close>: \<^const>\<open>None\<close> stands for a lookup in a nil property map, which returns nothing the
  generator could go on with.
\<close>

definition extract_grant :: "'k schema \<Rightarrow> ('k schema \<times> 'k schema option \<times> 'k schema option) option" where
  "extract_grant policySchema =
     (case sc_properties policySchema of
        None \<Rightarrow> None
      | Some pprops \<Rightarrow>
          (case map_of pprops ''grant'' of
             None \<Rightarrow> Some (policySchema, None, None)
           | Some g \<Rightarrow>
               (case sc_properties g of
                  None \<Rightarrow> None
                | Some gprops \<Rightarrow>
                    (let policySchema' = set_property ''grant'' (ref_schema ''#/$defs/grant'') policySchema in
                     case map_of gprops ''permissions'' of
                       None \<Rightarrow> Some (policySchema', Some g, None)
                     | Some p \<Rightarrow> Some (policySchema',
                         Some (set_property ''permissions'' (ref_schema ''#/$defs/permissions'') g), Some p)))))"

definition extractDefs :: "'k document \<Rightarrow> 'k document option" where
  "extractDefs d =
     (case sc_properties (doc_schema d) of
        None \<Rightarrow> None
      | Some props \<Rightarrow>
          (case map_of props ''policies'' of
             None \<Rightarrow> Some d
           | Some policies \<Rightarrow>
               (case sc_items policies of
                  None \<Rightarrow> Some d
                | Some item \<Rightarrow>
                    map_option (\<lambda>(policySchema, grantSchema, permSchema).
                      d\<lparr>doc_schema := set_property ''policies'' (set_items (ref_schema ''#/$defs/policy'') policies) (doc_schema d),
                        doc_definitions := Some [(''permissions'', permSchema), (''grant'', grantSchema),
                          (''policy'', Some policySchema)]\<rparr>)
                    (extract_grant item))))"

definition generate :: "((go_type \<Rightarrow> 'k schema option) \<Rightarrow> 'k document) \<Rightarrow> 'k document option" where
  "generate reflect =
     (let schema = reflect mapper in
      extractDefs (schema\<lparr>doc_version := ''https://json-schema.org/draft/2020-12/schema'',
        doc_id := ''https://github.com/abinnovision/gh-token-broker/config.schema.json'',
        doc_title := ''gh-token-broker configuration'', doc_definitions := None,
        doc_schema := setAdditionalPropertiesFalse (doc_schema schema)\<rparr>))"

section \<open>What a schema accepts\<close>

text \<open>
  The validator is a library; \<open>va_type\<close> and \<open>va_keyword\<close> are its treatment of the types and
  keywords the generator does not write. \<open>keywords_ok\<close> is the meaning the JSON-schema standard
  (draft 2020-12) gives to the others, over the meanings of the subschemas.
\<close>

record 'k validator =
  va_ok :: "'k schema \<Rightarrow> json \<Rightarrow> bool"
  va_type :: "string \<Rightarrow> json \<Rightarrow> bool"
  va_keyword :: "'k \<Rightarrow> json \<Rightarrow> bool"

definition has_type :: "(string \<Rightarrow> json \<Rightarrow> bool) \<Rightarrow> string \<Rightarrow> json \<Rightarrow> bool" where
  "has_type other ty v =
     (if ty = '''' then True
      else if ty = ''object'' then is_JObject v
      else if ty = ''array'' then is_JArray v
      else other ty v)"

fun members_ok :: "64 word option \<Rightarrow> (string \<times> (json \<Rightarrow> bool)) list \<Rightarrow> (json \<Rightarrow> bool) option \<Rightarrow>
    (json \<Rightarrow> bool) option \<Rightarrow> json \<Rightarrow> bool" where
  "members_ok mn props items add (JObject m) \<longleftrightarrow>
     (case mn of None \<Rightarrow> True | Some n \<Rightarrow> unat n \<le> gm_len m) \<and>
     list_all (\<lambda>(k, p). case gm_lookup m k of None \<Rightarrow> True | Some x \<Rightarrow> p x) props \<and>
     (case add of None \<Rightarrow> True | Some p \<Rightarrow> list_all (\<lambda>(k, x). k \<in> fst ` set props \<or> p x) (gm_entries m))"
| "members_ok mn props items add (JArray xs) \<longleftrightarrow> (case items of None \<Rightarrow> True | Some p \<Rightarrow> list_all p xs)"
| "members_ok mn props items add _ \<longleftrightarrow> True"

definition keywords_ok where
  "keywords_ok other ty en mn props items add v \<longleftrightarrow>
     has_type other ty v \<and> (en = [] \<or> v \<in> set en) \<and>
     members_ok mn (case props of None \<Rightarrow> [] | Some ps \<Rightarrow> ps) items add v"

definition schema_laws :: "'k validator \<Rightarrow> bool" where
  "schema_laws va \<longleftrightarrow>
     (\<forall>b r ty en mn props items add rest v. va_ok va (Schema (Some b) r ty en mn props items add rest) v = b) \<and>
     (\<forall>ty en mn props items add rest v. va_ok va (Schema None '''' ty en mn props items add rest) v \<longleftrightarrow>
        keywords_ok (va_type va) ty en mn (map_option (map (map_prod id (va_ok va))) props)
          (map_option (va_ok va) items) (map_option (va_ok va) add) v \<and>
        list_all (\<lambda>k. va_keyword va k v) rest)"

section \<open>Closing the object schemas\<close>

text \<open>No reference occurs in a tree; \<open>only_declared\<close> holds of a document whose objects, wherever the
  tree describes an object with properties and leaves additional ones open, have no other members.\<close>

primrec no_refs :: "'k schema \<Rightarrow> bool" where
  "no_refs (Schema b r ty en mn props items add rest) \<longleftrightarrow>
     r = '''' \<and>
     (case map_option (map (map_prod id no_refs)) props of None \<Rightarrow> True | Some ps \<Rightarrow> list_all snd ps) \<and>
     map_option no_refs items \<noteq> Some False \<and> map_option no_refs add \<noteq> Some False"

primrec only_declared :: "'k schema \<Rightarrow> json \<Rightarrow> bool" where
  "only_declared (Schema b r ty en mn props items add rest) = (\<lambda>v. b \<noteq> None \<or>
     (ty = ''object'' \<and> add = None \<longrightarrow>
       (case (props, v) of
          (Some ps, JObject m) \<Rightarrow> list_all (\<lambda>k. k \<in> fst ` set ps) (gm_keys m)
        | _ \<Rightarrow> True)) \<and>
     members_ok None (case map_option (map (map_prod id only_declared)) props of None \<Rightarrow> [] | Some ps \<Rightarrow> ps)
       (map_option only_declared items) None v)"

text \<open>
  \<open>no_undeclared\<close> is the demand without that exception: at every object with properties, whatever its
  additional properties say, and down through its properties and the elements of lists, a document
  has no member the tree does not declare. \<open>fields_shaped\<close> says that the nodes with properties are
  object schemas whose additional properties are unset or forbidden, as the reflector makes them from
  structs, and that the nodes with an item schema are not boolean schemas.
\<close>

primrec no_undeclared :: "'k schema \<Rightarrow> json \<Rightarrow> bool" where
  "no_undeclared (Schema b r ty en mn props items add rest) = (\<lambda>v.
     (case (props, v) of
        (Some ps, JObject m) \<Rightarrow> list_all (\<lambda>k. k \<in> fst ` set ps) (gm_keys m)
      | _ \<Rightarrow> True) \<and>
     members_ok None (case map_option (map (map_prod id no_undeclared)) props of None \<Rightarrow> [] | Some ps \<Rightarrow> ps)
       (map_option no_undeclared items) None v)"

primrec fields_shaped :: "'k schema \<Rightarrow> bool" where
  "fields_shaped (Schema b r ty en mn props items add rest) \<longleftrightarrow>
     (props \<noteq> None \<longrightarrow> b = None \<and> ty = ''object'' \<and> (add = None \<or> add = Some FalseSchema)) \<and>
     (items \<noteq> None \<longrightarrow> b = None) \<and>
     (case map_option (map (map_prod id fields_shaped)) props of None \<Rightarrow> True | Some ps \<Rightarrow> list_all snd ps) \<and>
     map_option fields_shaped items \<noteq> Some False"

primrec closed :: "'k schema \<Rightarrow> bool" where
  "closed (Schema b r ty en mn props items add rest) \<longleftrightarrow>
     (ty = ''object'' \<and> props \<noteq> None \<longrightarrow> add \<noteq> None) \<and>
     (case map_option (map (map_prod id closed)) props of None \<Rightarrow> True | Some ps \<Rightarrow> list_all snd ps) \<and>
     map_option closed items \<noteq> Some False"

lemma no_refs_simp [simp]:
  "no_refs (Schema b r ty en mn props items add rest) \<longleftrightarrow> r = '''' \<and>
    (\<forall>ps. props = Some ps \<longrightarrow> (\<forall>(k, s)\<in>set ps. no_refs s)) \<and>
    (\<forall>s. items = Some s \<longrightarrow> no_refs s) \<and> (\<forall>s. add = Some s \<longrightarrow> no_refs s)"
  by (cases props) (auto simp: list_all_iff)

declare no_refs.simps [simp del]

lemma closed_simp [simp]:
  "closed (Schema b r ty en mn props items add rest) \<longleftrightarrow> (ty = ''object'' \<and> props \<noteq> None \<longrightarrow> add \<noteq> None) \<and>
    (\<forall>ps. props = Some ps \<longrightarrow> (\<forall>(k, s)\<in>set ps. closed s)) \<and> (\<forall>s. items = Some s \<longrightarrow> closed s)"
  by (cases props) (auto simp: list_all_iff)

declare closed.simps [simp del]

lemma fields_shaped_simp [simp]:
  "fields_shaped (Schema b r ty en mn props items add rest) \<longleftrightarrow>
    (props \<noteq> None \<longrightarrow> b = None \<and> ty = ''object'' \<and> (add = None \<or> add = Some FalseSchema)) \<and>
    (items \<noteq> None \<longrightarrow> b = None) \<and>
    (\<forall>ps. props = Some ps \<longrightarrow> (\<forall>(k, s)\<in>set ps. fields_shaped s)) \<and> (\<forall>s. items = Some s \<longrightarrow> fields_shaped s)"
  by (cases props) (auto simp: list_all_iff)

declare fields_shaped.simps [simp del]

text \<open>The induction principle in terms of the entries of the property list.\<close>

lemma schema_induct [case_names Schema]:
  assumes "\<And>b r ty en mn props items add rest.
    (\<And>ps k s. props = Some ps \<Longrightarrow> (k, s) \<in> set ps \<Longrightarrow> P s) \<Longrightarrow> (\<And>s. items = Some s \<Longrightarrow> P s) \<Longrightarrow>
    (\<And>s. add = Some s \<Longrightarrow> P s) \<Longrightarrow> P (Schema b r ty en mn props items add rest)"
  shows "P s"
proof (induction s)
  case (Schema b r ty en mn props items add rest)
  show ?case
  proof (rule assms)
    fix ps k s
    assume "props = Some ps" "(k, s) \<in> set ps"
    then show "P s" using Schema.IH(1) [of ps "(k, s)" s] by simp
  qed (use Schema.IH(2,3) in auto)
qed

lemma setAdditionalPropertiesFalse_closed: "closed (setAdditionalPropertiesFalse s)"
  by (induction s rule: schema_induct) auto

lemma map_snd_ident: "(\<And>k x. (k, x) \<in> set ps \<Longrightarrow> f x = x) \<Longrightarrow> map (map_prod id f) ps = ps"
  by (induction ps) force+

lemma keys_map_snd [simp]: "fst ` map_prod id f ` A = fst ` A"
  by force

lemma setAdditionalPropertiesFalse_ident: "closed s \<Longrightarrow> setAdditionalPropertiesFalse s = s"
proof (induction s rule: schema_induct)
  case (Schema b r ty en mn props items add rest)
  have "map_option (map (map_prod id setAdditionalPropertiesFalse)) props = props"
    using Schema.IH(1) Schema.prems by (cases props) (auto intro!: map_snd_ident)
  moreover have "map_option setAdditionalPropertiesFalse items = items"
    using Schema.IH(2) Schema.prems by (cases items) auto
  ultimately show ?case using Schema.prems by auto
qed

lemma setAdditionalPropertiesFalse_no_refs: "no_refs s \<Longrightarrow> no_refs (setAdditionalPropertiesFalse s)"
  by (induction s rule: schema_induct) (fastforce simp: FalseSchema_def)

lemma members_ok_conj:
  assumes "\<And>k s. (k, s) \<in> set ps \<Longrightarrow> f s = (\<lambda>v. g s v \<and> h s v)" and "\<And>s. it = Some s \<Longrightarrow> f s = (\<lambda>v. g s v \<and> h s v)"
  shows "members_ok mn (map (map_prod id f) ps) (map_option f it) add v \<longleftrightarrow>
    members_ok mn (map (map_prod id g) ps) (map_option g it) add v \<and>
    members_ok None (map (map_prod id h) ps) (map_option h it) None v"
proof (cases v)
  case (JArray xs)
  then show ?thesis using assms(2) by (cases it) (auto simp: list_all_iff)
next
  case (JObject m)
  have all: "list_all (\<lambda>(k, p). case gm_lookup m k of None \<Rightarrow> True | Some x \<Rightarrow> p x) (map (map_prod id f) ps) \<longleftrightarrow>
    list_all (\<lambda>(k, p). case gm_lookup m k of None \<Rightarrow> True | Some x \<Rightarrow> p x) (map (map_prod id g) ps) \<and>
    list_all (\<lambda>(k, p). case gm_lookup m k of None \<Rightarrow> True | Some x \<Rightarrow> p x) (map (map_prod id h) ps)"
    using assms(1)
  proof (induction ps)
    case (Cons p ps)
    obtain k s where p: "p = (k, s)" by force
    have fs: "f s = (\<lambda>v. g s v \<and> h s v)" by (rule Cons.prems [of k]) (simp add: p)
    have "f s = (\<lambda>v. g s v \<and> h s v)" if "(k, s) \<in> set ps" for k s
      using that by (intro Cons.prems [of k]) (simp add: p)
    note IH = Cons.IH [OF this]
    show ?case by (cases "gm_lookup m k") (simp_all add: p fs IH [unfolded id_def] conj_ac)
  qed simp
  have keys: "fst ` set (map (map_prod id q) ps) = fst ` set ps" for q :: "'a \<Rightarrow> json \<Rightarrow> bool" by force
  show ?thesis unfolding JObject members_ok.simps keys all option.case by (simp only: simp_thms conj_ac)
qed simp_all

lemma members_ok_closed:
  "members_ok mn ps it (Some (\<lambda>x. False)) v \<longleftrightarrow> members_ok mn ps it None v \<and>
    (\<forall>m. v = JObject m \<longrightarrow> list_all (\<lambda>k. k \<in> fst ` set ps) (gm_keys m))"
  by (cases v) (simp_all add: gm_keys_def list.pred_map comp_def case_prod_beta' conj_ac)

lemma only_declared_None:
  "only_declared (Schema None r ty en mn props items add rest) v \<longleftrightarrow>
    (ty = ''object'' \<and> props \<noteq> None \<and> add = None \<longrightarrow>
      (\<forall>m. v = JObject m \<longrightarrow> list_all (\<lambda>k. k \<in> fst ` set (case props of None \<Rightarrow> [] | Some ps \<Rightarrow> ps)) (gm_keys m))) \<and>
    members_ok None (map (map_prod id only_declared) (case props of None \<Rightarrow> [] | Some ps \<Rightarrow> ps))
      (map_option only_declared items) None v"
  by (cases v) (auto split: option.splits)

lemma schema_lawsD:
  assumes "schema_laws va"
  shows "va_ok va (Schema (Some b) r ty en mn props items add rest) v = b"
    and "va_ok va (Schema None '''' ty en mn props items add rest) v \<longleftrightarrow>
      has_type (va_type va) ty v \<and> (en = [] \<or> v \<in> set en) \<and>
      members_ok mn (map (map_prod id (va_ok va)) (case props of None \<Rightarrow> [] | Some ps \<Rightarrow> ps))
        (map_option (va_ok va) items) (map_option (va_ok va) add) v \<and>
      list_all (\<lambda>k. va_keyword va k v) rest"
  using assms unfolding schema_laws_def keywords_ok_def by (auto split: option.splits)

lemma FalseSchema_ok: "schema_laws va \<Longrightarrow> va_ok va FalseSchema = (\<lambda>v. False)"
  by (rule ext) (simp add: FalseSchema_def schema_lawsD)

abbreviation property_list :: "(string \<times> 'k schema) list option \<Rightarrow> (string \<times> 'k schema) list" where
  "property_list props \<equiv> (case props of None \<Rightarrow> [] | Some ps \<Rightarrow> ps)"

text \<open>The node of a closed tree: the keywords of the node over the closed subtrees, and the names of the
  members if the node was open.\<close>

lemma closed_node_ok:
  assumes "schema_laws va"
  shows "va_ok va (setAdditionalPropertiesFalse (Schema None '''' ty en mn props items add rest)) v \<longleftrightarrow>
    has_type (va_type va) ty v \<and> (en = [] \<or> v \<in> set en) \<and>
    members_ok mn (map (map_prod id (\<lambda>s. va_ok va (setAdditionalPropertiesFalse s))) (property_list props))
      (map_option (\<lambda>s. va_ok va (setAdditionalPropertiesFalse s)) items) (map_option (va_ok va) add) v \<and>
    (ty = ''object'' \<and> props \<noteq> None \<and> add = None \<longrightarrow>
      (\<forall>m. v = JObject m \<longrightarrow> list_all (\<lambda>k. k \<in> fst ` set (property_list props)) (gm_keys m))) \<and>
    list_all (\<lambda>k. va_keyword va k v) rest"
proof -
  let ?f = "\<lambda>s. va_ok va (setAdditionalPropertiesFalse s)"
  have comp: "map (map_prod id (va_ok va)) (case map_option (map (map_prod id setAdditionalPropertiesFalse)) props of
      None \<Rightarrow> [] | Some ps \<Rightarrow> ps) = map (map_prod id ?f) (property_list props)"
    "map_option (va_ok va) (map_option setAdditionalPropertiesFalse items) = map_option ?f items"
    by (auto simp: map_prod.comp comp_def option.map_comp prod.map_comp split: option.split)
  have keys: "fst ` set (map (map_prod id ?f) ps) = fst ` set ps" for ps :: "(string \<times> 'a schema) list" by force
  show ?thesis
  proof (cases "ty = ''object'' \<and> props \<noteq> None \<and> add = None")
    case True
    then show ?thesis
      unfolding setAdditionalPropertiesFalse.simps schema_lawsD(2) [OF assms] comp
      by (simp add: FalseSchema_ok [OF assms] members_ok_closed keys del: set_map)
  next
    case False
    then show ?thesis
      unfolding setAdditionalPropertiesFalse.simps schema_lawsD(2) [OF assms] comp if_not_P [OF False] by blast
  qed
qed

lemma setAdditionalPropertiesFalse_exact:
  assumes "schema_laws va"
  shows "no_refs s \<Longrightarrow> va_ok va (setAdditionalPropertiesFalse s) = (\<lambda>v. va_ok va s v \<and> only_declared s v)"
proof (induction s rule: schema_induct)
  case (Schema b r ty en mn props items add rest)
  show ?case
  proof (cases b)
    case (Some c)
    then show ?thesis by (simp add: schema_lawsD [OF assms] fun_eq_iff)
  next
    case None
    let ?f = "\<lambda>s. va_ok va (setAdditionalPropertiesFalse s)"
    have r: "r = ''''" using Schema.prems by simp
    have ps: "?f s = (\<lambda>v. va_ok va s v \<and> only_declared s v)" if "(k, s) \<in> set (property_list props)" for k s
      using that Schema.IH(1) Schema.prems by (cases props) auto
    have it: "?f s = (\<lambda>v. va_ok va s v \<and> only_declared s v)" if "items = Some s" for s
      using that Schema.IH(2) Schema.prems by auto
    have split: "members_ok mn (map (map_prod id ?f) (property_list props)) (map_option ?f items) a v \<longleftrightarrow>
        members_ok mn (map (map_prod id (va_ok va)) (property_list props)) (map_option (va_ok va) items) a v \<and>
        members_ok None (map (map_prod id only_declared) (property_list props)) (map_option only_declared items) None v" for a v
      by (rule members_ok_conj [OF ps it])
    show ?thesis
      unfolding None r closed_node_ok [OF assms] schema_lawsD(2) [OF assms] only_declared_None split by (rule ext) blast
  qed
qed

text \<open>Closing the schema adds exactly one demand: under any validator with the standard's keyword
  semantics, the tree after \<open>setAdditionalPropertiesFalse\<close> accepts the documents the tree accepted
  before whose objects have no undeclared members, at any depth. Every object schema with properties
  is then closed, and a tree that already is stays as it is.\<close>

theorem setAdditionalPropertiesFalse_closes:
  assumes "schema_laws va" and "no_refs s"
  shows "(va_ok va (setAdditionalPropertiesFalse s) v \<longleftrightarrow> va_ok va s v \<and> only_declared s v) \<and>
    closed (setAdditionalPropertiesFalse s) \<and>
    (setAdditionalPropertiesFalse s = s \<longleftrightarrow> closed s)"
  using setAdditionalPropertiesFalse_exact [OF assms] setAdditionalPropertiesFalse_closed [of s]
    setAdditionalPropertiesFalse_ident [of s] by (auto simp: fun_eq_iff)

section \<open>No undeclared members\<close>

lemma members_ok_mono:
  assumes "members_ok mn (map (map_prod id f) ps) (map_option f it) add v"
    and "\<And>k s x. (k, s) \<in> set ps \<Longrightarrow> f s x \<Longrightarrow> g s x" and "\<And>s x. it = Some s \<Longrightarrow> f s x \<Longrightarrow> g s x"
  shows "members_ok None (map (map_prod id g) ps) (map_option g it) None v"
proof (cases v)
  case (JArray xs)
  with assms(1,3) show ?thesis by (cases it) (auto simp: list_all_iff)
next
  case (JObject m)
  have "case gm_lookup m k of None \<Rightarrow> True | Some x \<Rightarrow> g s x" if "(k, s) \<in> set ps" for k s
    using assms(1) assms(2) [OF that] that unfolding JObject
    by (fastforce simp: list_all_iff split: option.splits)
  then show ?thesis by (auto simp: JObject list_all_iff)
qed simp_all

lemma no_undeclared_node:
  "no_undeclared (Schema b r ty en mn props items add rest) v \<longleftrightarrow>
    (\<forall>ps m. props = Some ps \<and> v = JObject m \<longrightarrow> list_all (\<lambda>k. k \<in> fst ` set ps) (gm_keys m)) \<and>
    members_ok None (map (map_prod id no_undeclared) (property_list props)) (map_option no_undeclared items) None v"
  by (cases v; cases props) auto

lemma no_undeclared_only_declared: "no_undeclared s v \<Longrightarrow> only_declared s v"
proof (induction s arbitrary: v rule: schema_induct)
  case (Schema b r ty en mn props items add rest)
  show ?case
  proof (cases b)
    case None
    have "members_ok None (map (map_prod id only_declared) (property_list props)) (map_option only_declared items) None v"
      by (rule members_ok_mono [where f = no_undeclared and mn = None and add = None])
        (use Schema in \<open>auto simp: no_undeclared_node split: option.splits\<close>)
    with Schema.prems show ?thesis
      unfolding None only_declared_None no_undeclared_node by (auto split: option.split)
  qed simp
qed

lemma closed_no_undeclared:
  assumes "schema_laws va"
  shows "no_refs s \<Longrightarrow> fields_shaped s \<Longrightarrow> va_ok va (setAdditionalPropertiesFalse s) v \<Longrightarrow> no_undeclared s v"
proof (induction s arbitrary: v rule: schema_induct)
  case (Schema b r ty en mn props items add rest)
  let ?f = "\<lambda>s. va_ok va (setAdditionalPropertiesFalse s)"
  show ?case
  proof (cases "props = None \<and> items = None")
    case True
    then show ?thesis by (cases v) (simp_all add: no_undeclared_node)
  next
    case False
    with Schema.prems(1,2) have b: "b = None" and r: "r = ''''" by auto
    from Schema.prems(3) have mem: "members_ok mn (map (map_prod id ?f) (property_list props)) (map_option ?f items)
        (map_option (va_ok va) add) v"
      and names: "ty = ''object'' \<and> props \<noteq> None \<and> add = None \<longrightarrow>
        (\<forall>m. v = JObject m \<longrightarrow> list_all (\<lambda>k. k \<in> fst ` set (property_list props)) (gm_keys m))"
      unfolding b r closed_node_ok [OF assms] by blast+
    have below: "members_ok None (map (map_prod id no_undeclared) (property_list props)) (map_option no_undeclared items) None v"
    proof (rule members_ok_mono [OF mem])
      show "no_undeclared s x" if s: "(k, s) \<in> set (property_list props)" "?f s x" for k s x
      proof -
        obtain ps where ps: "props = Some ps" "(k, s) \<in> set ps" using s(1) by (cases props) auto
        with Schema.prems(1,2) have "no_refs s" "fields_shaped s" by auto
        with Schema.IH(1) [OF ps] s(2) show ?thesis by blast
      qed
      show "no_undeclared s x" if "items = Some s" "?f s x" for s x
        using that Schema.IH(2) Schema.prems(1,2) by auto
    qed
    have keys: "fst ` set (map (map_prod id ?f) ps) = fst ` set ps" for ps :: "(string \<times> 'a schema) list" by force
    have "list_all (\<lambda>k. k \<in> fst ` set ps) (gm_keys m)" if ps: "props = Some ps" and m: "v = JObject m" for ps m
    proof (cases add)
      case None
      with names ps m Schema.prems(2) show ?thesis by simp
    next
      case (Some a)
      with Schema.prems(2) ps have "a = FalseSchema" by simp
      with mem show ?thesis
        unfolding Some ps m
        by (simp add: FalseSchema_ok [OF assms] members_ok_closed [of mn _ _ "JObject m"] keys del: members_ok.simps set_map)
    qed
    with below show ?thesis unfolding no_undeclared_node by blast
  qed
qed

text \<open>Closing a tree the reflector made from structs adds exactly this demand.\<close>

lemma closed_iff_no_undeclared:
  assumes "schema_laws va" and "no_refs s" and "fields_shaped s"
  shows "va_ok va (setAdditionalPropertiesFalse s) v \<longleftrightarrow> va_ok va s v \<and> no_undeclared s v"
  using closed_no_undeclared [OF assms, of v] no_undeclared_only_declared [of s v]
  by (auto simp: setAdditionalPropertiesFalse_exact [OF assms(1,2)])

section \<open>The schema of a permission map\<close>

text \<open>The permission map a JSON object stands for.\<close>

definition represents :: "json \<Rightarrow> perms \<Rightarrow> bool" where
  "represents v m \<longleftrightarrow> (\<exists>om. v = JObject om \<and> (\<forall>k. gm_lookup om k = map_option JString (gm_lookup m k)))"

lemma catalog_nonempty: "list_all (\<lambda>(k, ls). ls \<noteq> []) Catalog"
  by code_simp

lemma enum_schema_ok:
  assumes "schema_laws va" and "ls \<noteq> []"
  shows "va_ok va (enum_schema ls) x \<longleftrightarrow> (\<exists>l\<in>set ls. x = JString l)"
  using assms(2) by (cases x) (auto simp: enum_schema_def schema_lawsD(2) [OF assms(1)] has_type_def)

lemma permissionsSchema_object:
  assumes "schema_laws va"
  shows "va_ok va permissionsSchema (JObject om) \<longleftrightarrow> gm_lookup om \<noteq> Map.empty \<and>
    (\<forall>k x. gm_lookup om k = Some x \<longrightarrow> (\<exists>ls. map_of Catalog k = Some ls \<and> (\<exists>l\<in>set ls. x = JString l)))"
    (is "?ok \<longleftrightarrow> ?ne \<and> ?all")
proof -
  let ?enum = "\<lambda>key. va_ok va (enum_schema (case map_of Catalog key of None \<Rightarrow> [] | Some ls \<Rightarrow> ls))"
  have enum: "?enum k x \<longleftrightarrow> (\<exists>ls. map_of Catalog k = Some ls \<and> (\<exists>l\<in>set ls. x = JString l))"
    if "k \<in> fst ` set Catalog" for k x
  proof -
    from that obtain ls where ls: "map_of Catalog k = Some ls" by (metis map_of_eq_None_iff not_None_eq)
    with catalog_nonempty have "ls \<noteq> []" by (auto simp: list_all_iff dest: map_of_SomeD)
    with ls show ?thesis by (simp add: enum_schema_ok [OF assms])
  qed
  have "?ok \<longleftrightarrow> ?ne \<and> (\<forall>k\<in>fst ` set Catalog. \<forall>x. gm_lookup om k = Some x \<longrightarrow> ?enum k x) \<and>
      (\<forall>k x. gm_lookup om k = Some x \<longrightarrow> k \<in> fst ` set Catalog)"
    by (auto simp: permissionsSchema_def Let_def schema_lawsD(2) [OF assms] has_type_def FalseSchema_ok [OF assms]
        list_all_iff gm_len_0_iff [symmetric] Suc_le_eq gm_lookup_iff_entry image_image split: option.splits)
  also have "\<dots> \<longleftrightarrow> ?ne \<and> ?all"
    using enum by (metis map_of_eq_None_iff option.distinct(1))
  finally show ?thesis .
qed

lemma permissionsSchema_iff:
  assumes "schema_laws va"
  shows "va_ok va permissionsSchema v \<longleftrightarrow> (\<exists>m. represents v m \<and> gm_len m \<noteq> 0 \<and> perms_ok m)"
proof (cases "is_JObject v")
  case False
  then show ?thesis
    by (auto simp: permissionsSchema_def Let_def schema_lawsD(2) [OF assms] has_type_def represents_def)
next
  case True
  then obtain om where v: "v = JObject om" by (cases v) auto
  have valid: "ValidKeyLevel k l \<longleftrightarrow> (\<exists>ls. map_of Catalog k = Some ls \<and> l \<in> set ls)" for k l
    by (auto simp: ValidKeyLevel_def list_ex_iff split: option.splits)
  define m where "m = gm_collect (\<lambda>k x. case x of JString s \<Rightarrow> Some s | _ \<Rightarrow> None) om"
  have m: "represents v m" if "va_ok va permissionsSchema v"
    using that unfolding v permissionsSchema_object [OF assms] represents_def
    by (fastforce simp: m_def gm_simps split: option.splits)
  have any: "va_ok va permissionsSchema v \<longleftrightarrow> gm_len m \<noteq> 0 \<and> perms_ok m" if "represents v m" for m
  proof -
    have look: "gm_lookup om k = map_option JString (gm_lookup m k)" for k
      using that by (simp add: represents_def v)
    have ne: "gm_lookup om \<noteq> Map.empty \<longleftrightarrow> gm_len m \<noteq> 0" by (simp add: gm_len_0_iff fun_eq_iff look)
    show ?thesis
      unfolding v permissionsSchema_object [OF assms] ne perms_ok_iff valid by (auto simp: look)
  qed
  from m any show ?thesis by blast
qed

text \<open>C23. The generated schema of a permission map agrees with the checks the loader makes: it accepts
  exactly the JSON objects that stand for a non-empty map \<open>checkPermissions\<close> accepts, that is, keys of
  the catalog with levels the catalog allows for them.\<close>

theorem permissionsSchema_exact:
  assumes "schema_laws va"
  shows "va_ok va permissionsSchema v \<longleftrightarrow>
    (\<exists>m. represents v m \<and> gm_len m \<noteq> 0 \<and> checkPermissions policy m = Inr ())"
  by (simp add: permissionsSchema_iff [OF assms] checkPermissions_Inr_iff)

section \<open>Extracting the definitions\<close>

text \<open>Replacing every reference by what it names, one level deep.\<close>

primrec inline :: "(string \<Rightarrow> 'k schema option) \<Rightarrow> 'k schema \<Rightarrow> 'k schema" where
  "inline L (Schema b r ty en mn props items add rest) =
     (let kept = Schema b r ty en mn (map_option (map (map_prod id (inline L))) props)
          (map_option (inline L) items) (map_option (inline L) add) rest in
      if r = '''' then kept else case L r of None \<Rightarrow> kept | Some s \<Rightarrow> s)"

definition definition_of :: "'k document \<Rightarrow> string \<Rightarrow> 'k schema option" where
  "definition_of d r =
     (case (doc_definitions d, cut_prefix r ''#/$defs/'') of
        (Some defs, Some name) \<Rightarrow> (case map_of defs name of Some (Some s) \<Rightarrow> Some s | _ \<Rightarrow> None)
      | _ \<Rightarrow> None)"

definition resolved :: "'k document \<Rightarrow> 'k schema" where
  "resolved d = (inline (definition_of d) ^^ 3) (doc_schema d)"

lemma inline_no_refs: "no_refs s \<Longrightarrow> inline L s = s"
proof (induction s rule: schema_induct)
  case (Schema b r ty en mn props items add rest)
  have "map_option (map (map_prod id (inline L))) props = props"
    using Schema.IH(1) Schema.prems by (cases props) (auto intro!: map_snd_ident)
  moreover have "map_option (inline L) items = items" using Schema.IH(2) Schema.prems by (cases items) auto
  moreover have "map_option (inline L) add = add" using Schema.IH(3) Schema.prems by (cases add) auto
  ultimately show ?case using Schema.prems by simp
qed

lemma map_snd_update:
  "(\<And>k x. (k, x) \<in> set ps \<Longrightarrow> f x = x) \<Longrightarrow> map (map_prod id f) (AList.update k x ps) = AList.update k (f x) ps"
proof (induction ps)
  case (Cons p ps)
  obtain k' y where p: "p = (k', y)" by force
  have "f y = y" by (rule Cons.prems [of k']) (simp add: p)
  moreover have "map (map_prod id f) ps = ps" using Cons.prems by (intro map_snd_ident) auto
  moreover have "map (map_prod id f) (AList.update k x ps) = AList.update k (f x) ps"
    using Cons.prems by (intro Cons.IH) auto
  ultimately show ?case unfolding id_def by (simp add: p)
qed simp

lemma update_same: "map_of ps k = Some x \<Longrightarrow> AList.update k x ps = ps"
  by (induction ps) (auto split: if_splits)

lemma update_twice: "AList.update k y (AList.update k x ps) = AList.update k y ps"
  by (induction ps) auto

lemma inline_set_property:
  "no_refs s \<Longrightarrow> inline L (set_property k x s) = set_property k (inline L x) s"
proof (cases s)
  case (Schema b r ty en mn props items add rest)
  assume "no_refs s"
  moreover from this have "map_option (inline L) items = items" "map_option (inline L) add = add"
    by (cases items; cases add; auto simp: Schema inline_no_refs)+
  ultimately show ?thesis by (cases props) (auto simp: Schema inline_no_refs intro!: map_snd_update)
qed

lemma inline_set_items: "no_refs s \<Longrightarrow> inline L (set_items x s) = set_items (inline L x) s"
proof (cases s)
  case (Schema b r ty en mn props items add rest)
  assume "no_refs s"
  moreover from this have "map_option (inline L) add = add" by (cases add) (auto simp: Schema inline_no_refs)
  moreover from \<open>no_refs s\<close> have "map_option (map (map_prod id (inline L))) props = props"
    by (cases props) (auto simp: Schema inline_no_refs intro!: map_snd_ident)
  ultimately show ?thesis by (simp add: Schema)
qed

lemma set_property_same: "sc_properties s = Some ps \<Longrightarrow> map_of ps k = Some x \<Longrightarrow> set_property k x s = s"
  by (cases s) (simp add: update_same)

lemma set_items_same: "sc_items s = Some x \<Longrightarrow> set_items x s = s"
  by (cases s) simp

lemma no_refs_property: "no_refs s \<Longrightarrow> sc_properties s = Some ps \<Longrightarrow> map_of ps k = Some x \<Longrightarrow> no_refs x"
  by (cases s) (auto dest: map_of_SomeD)

lemma no_refs_items: "no_refs s \<Longrightarrow> sc_items s = Some x \<Longrightarrow> no_refs x"
  by (cases s) auto

lemma inline_ref: "r \<noteq> '''' \<Longrightarrow> inline L (ref_schema r) = (case L r of None \<Rightarrow> ref_schema r | Some s \<Rightarrow> s)"
  by (simp add: ref_schema_def split: option.split)

lemma extract_grant_inline:
  assumes "extract_grant item = Some (p, g, ps)" and "no_refs item"
    and "\<And>s. g = Some s \<Longrightarrow> L ''#/$defs/grant'' = Some s" and "\<And>s. ps = Some s \<Longrightarrow> L ''#/$defs/permissions'' = Some s"
  shows "inline L (inline L p) = item"
proof -
  from assms(1) obtain pprops where pprops: "sc_properties item = Some pprops"
    by (auto simp: extract_grant_def split: option.splits)
  show ?thesis
  proof (cases "map_of pprops ''grant''")
    case None
    with assms(1) pprops have "p = item" by (simp add: extract_grant_def)
    with assms(2) show ?thesis by (simp add: inline_no_refs)
  next
    case (Some gr)
    from assms(1) obtain gprops where gprops: "sc_properties gr = Some gprops"
      by (auto simp: extract_grant_def pprops Some split: option.splits)
    have refs: "no_refs gr" by (rule no_refs_property [OF assms(2) pprops Some])
    have p: "p = set_property ''grant'' (ref_schema ''#/$defs/grant'') item"
      using assms(1) by (auto simp: extract_grant_def pprops Some gprops Let_def split: option.splits)
    have "g \<noteq> None" and g: "\<And>s. g = Some s \<Longrightarrow> inline L s = gr"
    proof -
      show "g \<noteq> None"
        using assms(1) by (auto simp: extract_grant_def pprops Some gprops Let_def split: option.splits)
      show "inline L s = gr" if s: "g = Some s" for s
      proof (cases "map_of gprops ''permissions''")
        case None
        with assms(1) s have "s = gr" by (simp add: extract_grant_def pprops Some gprops Let_def)
        with refs show ?thesis by (simp add: inline_no_refs)
      next
        case (Some perm)
        with assms(1) s have s': "s = set_property ''permissions'' (ref_schema ''#/$defs/permissions'') gr" "ps = Some perm"
          by (simp_all add: extract_grant_def pprops \<open>map_of pprops ''grant'' = Some gr\<close> gprops Let_def)
        from assms(4) [OF s'(2)] show ?thesis
          by (simp add: s'(1) inline_set_property [OF refs] inline_ref set_property_same [OF gprops Some])
      qed
    qed
    then obtain s where s: "g = Some s" "inline L s = gr" by blast
    from assms(3) [OF s(1)] s(2) show ?thesis
      by (simp add: p inline_set_property [OF assms(2)] inline_ref set_property_same [OF pprops Some])
  qed
qed

text \<open>The three shapes of a result: nothing to extract, or a new root and its definitions.\<close>

lemma extractDefs_cases:
  assumes "extractDefs d = Some d'"
  obtains (same) "d' = d"
  | (extracted) props policies item p g ps where
      "sc_properties (doc_schema d) = Some props" "map_of props ''policies'' = Some policies"
      "sc_items policies = Some item" "extract_grant item = Some (p, g, ps)"
      "d' = d\<lparr>doc_schema := set_property ''policies'' (set_items (ref_schema ''#/$defs/policy'') policies) (doc_schema d),
        doc_definitions := Some [(''permissions'', ps), (''grant'', g), (''policy'', Some p)]\<rparr>"
  using assms unfolding extractDefs_def by (auto split: option.splits)

text \<open>Extraction only moves subtrees: inlining the references of the extracted document, three levels
  deep, gives the tree it was extracted from, and the identification of the document is kept.\<close>

lemma extractDefs_resolved:
  assumes "no_refs (doc_schema d)" and "doc_definitions d = None" and "extractDefs d = Some d'"
  shows "resolved d' = doc_schema d \<and>
    doc_version d' = doc_version d \<and> doc_id d' = doc_id d \<and> doc_title d' = doc_title d"
  using assms(3)
proof (cases rule: extractDefs_cases)
  case same
  then show ?thesis by (simp add: resolved_def inline_no_refs assms(1) eval_nat_numeral)
next
  case (extracted props policies item p g ps)
  let ?L = "definition_of d'"
  have L: "?L ''#/$defs/policy'' = Some p" "?L ''#/$defs/grant'' = g" "?L ''#/$defs/permissions'' = ps"
    by (simp_all add: extracted(5) definition_of_def cut_prefix_def split: option.split)
  have pol: "no_refs policies" by (rule no_refs_property [OF assms(1) extracted(1,2)])
  have item: "no_refs item" by (rule no_refs_items [OF pol extracted(3)])
  have three: "(inline ?L ^^ 3) s = inline ?L (inline ?L (inline ?L s))" for s by (simp add: eval_nat_numeral)
  have "resolved d' = set_property ''policies'' (set_items (inline ?L (inline ?L p)) policies) (doc_schema d)"
    unfolding resolved_def three
    by (simp add: extracted(5) [THEN arg_cong, of doc_schema] inline_set_property [OF assms(1)] inline_set_items [OF pol]
      inline_ref L(1))
  also have "inline ?L (inline ?L p) = item"
    by (rule extract_grant_inline [OF extracted(4) item]) (simp_all add: L)
  finally show ?thesis
    by (simp add: set_items_same [OF extracted(3)] set_property_same [OF extracted(1,2)] extracted(5))
qed

section \<open>The generated document\<close>

text \<open>
  What the generator relies on of the reflector, run on the configuration's type without references and
  with the mapper: the tree has no references, and where it describes the permissions of a policy's
  grant it has what the mapper returned for that type. Structs become object schemas with one property
  per field, named by the \<open>yaml\<close> tag, whose additional properties are unset or forbidden
  (\<open>fields_shaped\<close>); the fields of \<open>Config\<close>, \<open>Policy\<close> and \<open>Grant\<close> are those of
  \<open>config.go\<close>.
\<close>

definition member_schema :: "string \<Rightarrow> 'k schema \<Rightarrow> 'k schema option" where
  "member_schema k s = (if sc_boolean s \<noteq> None then None
     else case sc_properties s of None \<Rightarrow> None | Some ps \<Rightarrow> map_of ps k)"

definition item_schema :: "'k schema \<Rightarrow> 'k schema option" where
  "item_schema s = (if sc_boolean s \<noteq> None then None else sc_items s)"

definition permission_slot :: "'k schema \<Rightarrow> 'k schema option" where
  "permission_slot s = Option.bind (Option.bind (Option.bind (Option.bind (member_schema ''policies'' s) item_schema)
     (member_schema ''grant'')) (member_schema ''permissions'')) Some"

definition policy_slot :: "'k schema \<Rightarrow> 'k schema option" where
  "policy_slot s = Option.bind (member_schema ''policies'' s) item_schema"

definition field_names :: "'k schema \<Rightarrow> string set" where
  "field_names s = (case sc_properties s of None \<Rightarrow> {} | Some ps \<Rightarrow> fst ` set ps)"

definition reflector_laws :: "((go_type \<Rightarrow> 'k schema option) \<Rightarrow> 'k document) \<Rightarrow> bool" where
  "reflector_laws reflect \<longleftrightarrow>
     (let root = doc_schema (reflect mapper) in
      no_refs root \<and> fields_shaped root \<and> permission_slot root = mapper PermissionsType \<and>
      field_names root = {''server'', ''oidc'', ''githubApp'', ''policy'', ''policies''} \<and>
      map_option field_names (policy_slot root) = Some {''name'', ''issuer'', ''condition'', ''grant''} \<and>
      map_option field_names (Option.bind (policy_slot root) (member_schema ''grant'')) = Some {''permissions''})"

lemma valid_member:
  assumes "schema_laws va" and "no_refs s" and "va_ok va s (JObject m)"
    and "member_schema k s = Some s'" and "gm_lookup m k = Some x"
  shows "va_ok va s' x \<and> no_refs s'"
proof (cases s)
  case (Schema b r ty en mn props items add rest)
  from assms(4) obtain ps where ps: "b = None" "props = Some ps" "map_of ps k = Some s'"
    by (auto simp: member_schema_def Schema split: option.splits if_splits)
  moreover from assms(2) Schema have "r = ''''" by simp
  ultimately have "list_all (\<lambda>(k, p). case gm_lookup m k of None \<Rightarrow> True | Some x \<Rightarrow> p x) (map (map_prod id (va_ok va)) ps)"
    using assms(3) by (simp add: Schema schema_lawsD(2) [OF assms(1)])
  with ps(3) assms(5) have "va_ok va s' x" by (fastforce simp: list_all_iff dest: map_of_SomeD)
  moreover have "no_refs s'" by (rule no_refs_property [OF assms(2) _ ps(3)]) (simp add: Schema ps)
  ultimately show ?thesis by simp
qed

lemma valid_item:
  assumes "schema_laws va" and "no_refs s" and "va_ok va s (JArray xs)" and "item_schema s = Some s'" and "x \<in> set xs"
  shows "va_ok va s' x \<and> no_refs s'"
proof (cases s)
  case (Schema b r ty en mn props items add rest)
  from assms(4) have "b = None" "items = Some s'" by (auto simp: item_schema_def Schema split: if_splits)
  with assms(2,3,5) Schema show ?thesis
    by (auto simp: schema_lawsD(2) [OF assms(1)] list_all_iff)
qed

text \<open>Closing a tree keeps the slot.\<close>

lemma member_schema_closed:
  "member_schema k (setAdditionalPropertiesFalse s) = map_option setAdditionalPropertiesFalse (member_schema k s)"
proof (cases s)
  case (Schema b r ty en mn props items add rest)
  have "map_of (map (map_prod id setAdditionalPropertiesFalse) ps) k = map_option setAdditionalPropertiesFalse (map_of ps k)"
    for ps :: "(string \<times> 'a schema) list" by (induction ps) auto
  then show ?thesis by (cases props) (simp_all add: Schema member_schema_def)
qed

lemma item_schema_closed:
  "item_schema (setAdditionalPropertiesFalse s) = map_option setAdditionalPropertiesFalse (item_schema s)"
  by (cases s) (simp add: item_schema_def)

lemma permission_slotE:
  assumes "permission_slot s = Some p"
  obtains ps i g where "member_schema ''policies'' s = Some ps" "item_schema ps = Some i"
    "member_schema ''grant'' i = Some g" "member_schema ''permissions'' g = Some p"
  using assms unfolding permission_slot_def by (auto simp: Option.bind_eq_Some_conv)

lemma member_schema_properties: "member_schema k s = Some x \<Longrightarrow> \<exists>ps. sc_properties s = Some ps \<and> map_of ps k = Some x"
  by (auto simp: member_schema_def split: if_splits option.splits)

lemma extractDefs_returns:
  assumes "permission_slot (doc_schema d) = Some p"
  shows "\<exists>d'. extractDefs d = Some d'"
proof -
  from assms obtain ps i g where "member_schema ''policies'' (doc_schema d) = Some ps" "item_schema ps = Some i"
    "member_schema ''grant'' i = Some g" "member_schema ''permissions'' g = Some p" by (rule permission_slotE)
  then show ?thesis
    by (auto simp: extractDefs_def extract_grant_def item_schema_def Let_def
        dest!: member_schema_properties split: if_splits)
qed

lemma generate_resolved:
  assumes "reflector_laws reflect"
  shows "\<exists>d. generate reflect = Some d \<and>
    resolved d = setAdditionalPropertiesFalse (doc_schema (reflect mapper))"
proof -
  define d0 where "d0 = (reflect mapper)\<lparr>doc_version := ''https://json-schema.org/draft/2020-12/schema'',
        doc_id := ''https://github.com/abinnovision/gh-token-broker/config.schema.json'',
        doc_title := ''gh-token-broker configuration'', doc_definitions := None,
        doc_schema := setAdditionalPropertiesFalse (doc_schema (reflect mapper))\<rparr>"
  have refs: "no_refs (doc_schema d0)"
    using assms by (simp add: d0_def reflector_laws_def Let_def setAdditionalPropertiesFalse_no_refs)
  obtain q where "permission_slot (doc_schema (reflect mapper)) = Some q"
    using assms by (simp add: reflector_laws_def Let_def mapper_def)
  then obtain ps i g where "member_schema ''policies'' (doc_schema (reflect mapper)) = Some ps" "item_schema ps = Some i"
    "member_schema ''grant'' i = Some g" "member_schema ''permissions'' g = Some q" by (rule permission_slotE)
  then have "permission_slot (doc_schema d0) = Some (setAdditionalPropertiesFalse q)"
    by (simp add: d0_def permission_slot_def member_schema_closed item_schema_closed)
  then obtain d where d: "extractDefs d0 = Some d" using extractDefs_returns by blast
  with extractDefs_resolved [OF refs _ d] show ?thesis
    by (simp add: generate_def Let_def d0_def [symmetric]) (simp add: d0_def)
qed

lemma undeclared_member:
  assumes "no_undeclared s (JObject m)" and "member_schema k s = Some s'" and "gm_lookup m k = Some x"
  shows "no_undeclared s' x"
proof (cases s)
  case (Schema b r ty en mn props items add rest)
  from assms(2) obtain ps where ps: "props = Some ps" "map_of ps k = Some s'"
    by (auto simp: member_schema_def Schema split: option.splits if_splits)
  have "list_all (\<lambda>(k, p). case gm_lookup m k of None \<Rightarrow> True | Some x \<Rightarrow> p x) (map (map_prod id no_undeclared) ps)"
    using assms(1) by (simp add: Schema ps no_undeclared_node)
  with map_of_SomeD [OF ps(2)] assms(3) show ?thesis by (fastforce simp: list_all_iff)
qed

lemma undeclared_item:
  assumes "no_undeclared s (JArray xs)" and "item_schema s = Some s'" and "x \<in> set xs"
  shows "no_undeclared s' x"
  using assms by (cases s) (auto simp: item_schema_def no_undeclared_node list_all_iff split: if_splits)

lemma undeclared_names:
  assumes "no_undeclared s (JObject m)" and "member_schema k s = Some s'"
  shows "set (gm_keys m) \<subseteq> field_names s"
  using assms
  by (cases s) (auto simp: member_schema_def field_names_def no_undeclared_node list_all_iff split: if_splits option.splits)

text \<open>C24. What the generated schema enforces on a configuration: with a reflector that uses the mapper and a
  validator with the standard's semantics, the generator produces a document. It accepts exactly the
  configurations that fit the types and have no member, in any object the types describe through their
  fields and lists, that is not declared (\<open>no_undeclared\<close>): only the five sections at the root, and
  only the declared members in every policy and every grant. In an accepted configuration the
  permissions of every grant of every policy are a non-empty map that passes \<open>checkPermissions\<close>.\<close>

theorem generated_schema_enforces:
  assumes "schema_laws va" and "reflector_laws reflect"
  shows "\<exists>d. generate reflect = Some d \<and>
    (\<forall>v. va_ok va (resolved d) v \<longleftrightarrow>
       va_ok va (doc_schema (reflect mapper)) v \<and> no_undeclared (doc_schema (reflect mapper)) v) \<and>
    (\<forall>cfg. va_ok va (resolved d) (JObject cfg) \<longrightarrow>
      set (gm_keys cfg) \<subseteq> {''server'', ''oidc'', ''githubApp'', ''policy'', ''policies''} \<and>
      (\<forall>ps p. gm_lookup cfg ''policies'' = Some (JArray ps) \<and> JObject p \<in> set ps \<longrightarrow>
        set (gm_keys p) \<subseteq> {''name'', ''issuer'', ''condition'', ''grant''} \<and>
        (\<forall>g. gm_lookup p ''grant'' = Some (JObject g) \<longrightarrow> set (gm_keys g) \<subseteq> {''permissions''} \<and>
          (\<forall>v. gm_lookup g ''permissions'' = Some v \<longrightarrow>
            (\<exists>m. represents v m \<and> gm_len m \<noteq> 0 \<and> checkPermissions policy m = Inr ())))))"
proof -
  let ?s = "doc_schema (reflect mapper)"
  have refs: "no_refs ?s" and shaped: "fields_shaped ?s" and slot: "permission_slot ?s = Some permissionsSchema"
    using assms(2) by (simp_all add: reflector_laws_def Let_def mapper_def)
  obtain d where d: "generate reflect = Some d" "resolved d = setAdditionalPropertiesFalse ?s"
    using generate_resolved [OF assms(2)] by blast
  note iff = closed_iff_no_undeclared [OF assms(1) refs shaped]
  obtain s1 s2 s3 where s: "member_schema ''policies'' ?s = Some s1" "item_schema s1 = Some s2"
    "member_schema ''grant'' s2 = Some s3" "member_schema ''permissions'' s3 = Some permissionsSchema"
    by (rule permission_slotE [OF slot])
  have names: "field_names ?s = {''server'', ''oidc'', ''githubApp'', ''policy'', ''policies''}"
    "field_names s2 = {''name'', ''issuer'', ''condition'', ''grant''}" "field_names s3 = {''permissions''}"
    using assms(2) s(1-3) by (simp_all add: reflector_laws_def Let_def policy_slot_def)
  have "\<exists>m. represents v m \<and> gm_len m \<noteq> 0 \<and> checkPermissions policy m = Inr ()"
    if "va_ok va permissionsSchema v" for v
    using that by (simp add: permissionsSchema_iff [OF assms(1)] checkPermissions_Inr_iff)
  note perms = this
  note member = valid_member [OF assms(1)] and item = valid_item [OF assms(1)]
  show ?thesis
  proof (rule exI [of _ d], intro conjI allI impI, rule d(1))
    show "va_ok va (resolved d) v \<longleftrightarrow> va_ok va ?s v \<and> no_undeclared ?s v" for v
      unfolding d(2) by (rule iff)
    fix cfg
    assume "va_ok va (resolved d) (JObject cfg)"
    then have ok: "va_ok va ?s (JObject cfg)" and un: "no_undeclared ?s (JObject cfg)" by (simp_all add: d(2) iff)
    show "set (gm_keys cfg) \<subseteq> {''server'', ''oidc'', ''githubApp'', ''policy'', ''policies''}"
      using undeclared_names [OF un s(1)] by (simp only: names)
    fix ps p
    assume "gm_lookup cfg ''policies'' = Some (JArray ps) \<and> JObject p \<in> set ps"
    then have at: "gm_lookup cfg ''policies'' = Some (JArray ps)" "JObject p \<in> set ps" by blast+
    have 1: "va_ok va s1 (JArray ps) \<and> no_refs s1" by (rule member [OF refs ok s(1) at(1)])
    then have 2: "va_ok va s2 (JObject p) \<and> no_refs s2" using item s(2) at(2) by blast
    have un2: "no_undeclared s2 (JObject p)"
      by (rule undeclared_item [OF undeclared_member [OF un s(1) at(1)] s(2) at(2)])
    show "set (gm_keys p) \<subseteq> {''name'', ''issuer'', ''condition'', ''grant''}"
      using undeclared_names [OF un2 s(3)] by (simp only: names)
    fix g
    assume g: "gm_lookup p ''grant'' = Some (JObject g)"
    have 3: "va_ok va s3 (JObject g) \<and> no_refs s3" using 2 member s(3) g by blast
    show "set (gm_keys g) \<subseteq> {''permissions''}"
      using undeclared_names [OF undeclared_member [OF un2 s(3) g] s(4)] by (simp only: names)
    fix v
    assume "gm_lookup g ''permissions'' = Some v"
    then have "va_ok va permissionsSchema v" using 3 member s(4) by blast
    then show "\<exists>m. represents v m \<and> gm_len m \<noteq> 0 \<and> checkPermissions policy m = Inr ()" by (rule perms)
  qed
qed

section \<open>A validator and a reflector for the witnesses\<close>

primrec mini_ok :: "unit schema \<Rightarrow> json \<Rightarrow> bool" where
  "mini_ok (Schema b r ty en mn props items add rest) =
     (\<lambda>v. case b of Some c \<Rightarrow> c
       | None \<Rightarrow> keywords_ok (\<lambda>ty v. True) ty en mn (map_option (map (map_prod id mini_ok)) props)
           (map_option mini_ok items) (map_option mini_ok add) v)"

definition mini_validator :: "unit validator" where
  "mini_validator = \<lparr>va_ok = mini_ok, va_type = (\<lambda>ty v. True), va_keyword = (\<lambda>k v. True)\<rparr>"

lemma mini_validator_laws: "schema_laws mini_validator"
  by (simp add: schema_laws_def mini_validator_def list_all_iff)

definition object_schema :: "(string \<times> unit schema) list \<Rightarrow> unit schema" where
  "object_schema ps = Schema None '''' ''object'' [] None (Some ps) None None []"

definition any_schema :: "unit schema" where
  "any_schema = Schema None '''' '''' [] None None None None []"

definition sample_tree :: "unit schema option \<Rightarrow> unit schema" where
  "sample_tree p = object_schema [(''server'', any_schema), (''oidc'', any_schema), (''githubApp'', any_schema),
     (''policy'', any_schema), (''policies'', Schema None '''' ''array'' [] None None
       (Some (object_schema [(''name'', any_schema), (''issuer'', any_schema), (''condition'', any_schema),
         (''grant'', object_schema (case p of None \<Rightarrow> [] | Some s \<Rightarrow> [(''permissions'', s)]))])) None [])]"

definition sample_reflect :: "(go_type \<Rightarrow> unit schema option) \<Rightarrow> unit document" where
  "sample_reflect mp = \<lparr>doc_version = '''', doc_id = '''', doc_title = '''', doc_definitions = None,
     doc_schema = sample_tree (mp PermissionsType)\<rparr>"

lemma permissionsSchema_no_refs: "no_refs permissionsSchema"
  by (auto simp: permissionsSchema_def Let_def enum_schema_def FalseSchema_def)

lemma permissionsSchema_shaped: "fields_shaped permissionsSchema"
  by (auto simp: permissionsSchema_def Let_def enum_schema_def)

lemma sample_reflector: "reflector_laws sample_reflect"
  using permissionsSchema_no_refs permissionsSchema_shaped
  by (simp add: reflector_laws_def Let_def sample_reflect_def sample_tree_def object_schema_def any_schema_def
      mapper_def permission_slot_def policy_slot_def field_names_def member_schema_def item_schema_def)

definition sample_grant :: "string \<Rightarrow> json" where
  "sample_grant level = JObject (gm_of [(''contents'', JString level)])"

theorem permissionsSchema_exact_witness:
  "\<not> va_ok mini_validator permissionsSchema (sample_grant ''admin'') \<and>
    va_ok mini_validator permissionsSchema (sample_grant ''read'')"
proof -
  have rep: "represents (sample_grant l) m \<longleftrightarrow> gm_lookup m = [''contents'' \<mapsto> l]" for l m
  proof -
    have "Some (JString l) = map_option JString x \<longleftrightarrow> x = Some l" for x by (cases x) auto
    then show ?thesis by (auto simp: represents_def sample_grant_def gm_lookup_of fun_eq_iff)
  qed
  have perms: "checkPermissions ''p'' m = Inr () \<longleftrightarrow> ValidKeyLevel ''contents'' l"
    if "gm_lookup m = [''contents'' \<mapsto> l]" for l m
    using that by (simp add: checkPermissions_Inr_iff perms_ok_iff)
  have "ValidKeyLevel ''contents'' ''read''" "\<not> ValidKeyLevel ''contents'' ''admin''" by code_simp+
  moreover have "va_ok mini_validator permissionsSchema (sample_grant l) \<longleftrightarrow> ValidKeyLevel ''contents'' l" for l
    unfolding permissionsSchema_exact [OF mini_validator_laws, of _ "''p''"] rep
  proof
    assume "ValidKeyLevel ''contents'' l"
    moreover have look: "gm_lookup (gm_of [(''contents'', l)]) = [''contents'' \<mapsto> l]"
      by (auto simp: gm_lookup_of fun_eq_iff)
    ultimately have "checkPermissions ''p'' (gm_of [(''contents'', l)]) = Inr ()" using perms by blast
    moreover have "gm_len (gm_of [(''contents'', l)]) \<noteq> 0" unfolding gm_len_0_iff look by simp
    ultimately show "\<exists>m. gm_lookup m = [''contents'' \<mapsto> l] \<and> gm_len m \<noteq> 0 \<and> checkPermissions ''p'' m = Inr ()"
      using look by blast
  qed (use perms in blast)
  ultimately show ?thesis by blast
qed

theorem setAdditionalPropertiesFalse_closes_witness:
  "mini_ok (sample_tree None) (JObject (gm_of [(''polices'', JNull)])) \<and>
    \<not> mini_ok (setAdditionalPropertiesFalse (sample_tree None)) (JObject (gm_of [(''polices'', JNull)]))"
proof -
  have "no_refs (sample_tree None)" by (simp add: sample_tree_def object_schema_def any_schema_def)
  note closes = setAdditionalPropertiesFalse_closes [OF mini_validator_laws this]
  have "\<not> only_declared (sample_tree None) (JObject (gm_of [(''polices'', JNull)]))" by code_simp
  moreover have "mini_ok (sample_tree None) (JObject (gm_of [(''polices'', JNull)]))" by code_simp
  ultimately show ?thesis using closes by (simp add: mini_validator_def)
qed

text \<open>A configuration with one policy, and one with a misspelt section.\<close>

definition sample_document :: "string \<Rightarrow> json gomap" where
  "sample_document section = gm_of [(section, JArray [JObject (gm_of [(''name'', JString ''own''),
     (''grant'', JObject (gm_of [(''permissions'', sample_grant ''read'')]))])])]"

lemma sample_permissions: "mini_ok permissionsSchema (sample_grant ''read'')"
    "no_undeclared (permissionsSchema :: unit schema) (sample_grant ''read'')"
proof -
  have "map_of Catalog ''contents'' = Some [''read'', ''write'']" by code_simp
  then have ok: "va_ok mini_validator permissionsSchema (sample_grant ''read'')"
    unfolding sample_grant_def permissionsSchema_object [OF mini_validator_laws]
    by (auto simp: gm_lookup_of fun_eq_iff split: if_splits)
  then show "mini_ok permissionsSchema (sample_grant ''read'')" by (simp add: mini_validator_def)
  have "closed (permissionsSchema :: unit schema)" by (auto simp: permissionsSchema_def Let_def enum_schema_def)
  then have "setAdditionalPropertiesFalse permissionsSchema = (permissionsSchema :: unit schema)"
    by (rule setAdditionalPropertiesFalse_ident)
  with closed_no_undeclared [OF mini_validator_laws permissionsSchema_no_refs permissionsSchema_shaped] ok
  show "no_undeclared (permissionsSchema :: unit schema) (sample_grant ''read'')" by simp
qed

lemma sample_document_ok:
  "mini_ok (sample_tree (Some p)) (JObject (sample_document ''policies'')) \<longleftrightarrow> mini_ok p (sample_grant ''read'')"
  "no_undeclared (sample_tree (Some p)) (JObject (sample_document ''policies'')) \<longleftrightarrow> no_undeclared p (sample_grant ''read'')"
  "\<not> no_undeclared (sample_tree (Some p)) (JObject (sample_document ''polices''))"
  by (simp_all add: sample_tree_def object_schema_def any_schema_def sample_document_def keywords_ok_def has_type_def
      gm_lookup_of list_all_iff gm_keys_dom dom_def)

theorem generated_schema_enforces_witness:
  "\<exists>d. generate sample_reflect = Some d \<and>
    va_ok mini_validator (resolved d) (JObject (sample_document ''policies'')) \<and>
    \<not> va_ok mini_validator (resolved d) (JObject (sample_document ''polices''))"
proof -
  obtain d where d: "generate sample_reflect = Some d" and
    ok: "\<And>v. va_ok mini_validator (resolved d) v \<longleftrightarrow>
       va_ok mini_validator (doc_schema (sample_reflect mapper)) v \<and> no_undeclared (doc_schema (sample_reflect mapper)) v"
    using generated_schema_enforces [OF mini_validator_laws sample_reflector] by blast
  have "doc_schema (sample_reflect mapper) = sample_tree (Some permissionsSchema)"
    by (simp add: sample_reflect_def mapper_def)
  with d ok sample_permissions show ?thesis by (auto simp: sample_document_ok mini_validator_def)
qed

end
