(* ===== verification/Spec2Isabelle.thy ===== *)
theory Spec2Isabelle
  imports Broker_Serve Schema_Gen
begin

text \<open>
  A verification development of gh-token-broker: a service that exchanges an OIDC ID token of a
  configured issuer for a least-privilege GitHub App installation token, as far as operator-written
  CEL policies allow.

  \<^bold>\<open>The program and its model.\<close> A request to \<open>POST /token\<close> runs through the parts in this order;
  each has one theory (or two, the second holding its guarantees).

  \<^item> \<open>internal/config\<close> (\<open>Config\<close>): configuration records, defaults, the semantic checks (\<open>validate\<close>),
    loading, lint, the aggregate of all grants. The specification stands apart from the operations:
    \<open>well_laid_out\<close>, \<open>schema_accepts\<close>, \<open>defaulted\<close> and \<open>config_ok\<close> (with \<open>canonical_url\<close>,
    \<open>enterprise_slug\<close> and \<open>claim_ok\<close>) are written out without them, and one lemma for each shows that
    the code's check or default decides it.
  \<^item> \<open>internal/auth\<close> (\<open>Auth\<close>, \<open>Discovery\<close>): building the authenticator from the issuers, routing a
    token by its unverified issuer, the checks on verified claims (\<open>token_ok\<close>, \<open>identity_of\<close>), and
    the restricted HTTP transport with its throttle on key-set fetches, as a step relation.
  \<^item> \<open>internal/resource\<close> (\<open>Resource\<close>): parsing of resource identifiers into a canonical form; the
    regular expressions are decided by a matcher with derivatives (\<open>Go_Regexp\<close>).
  \<^item> \<open>internal/perm\<close> (\<open>Perm\<close>): the catalog and the lattice of levels; \<open>level_at\<close> is the abstract
    view of a permission map, and every operation is characterised through it.
  \<^item> \<open>internal/policy\<close> (\<open>Cel_Ast\<close>, \<open>Policy_Check\<close>, \<open>Policy_Engine\<close>, \<open>Policy_Sound\<close>): the syntax
    trees of CEL, the shape checks on a condition, compiling and evaluating policies, and what the
    shape checks guarantee about the meaning of a condition.
  \<^item> \<open>internal/githubapp\<close> (\<open>Githubapp\<close>): the client, with every request to GitHub explicit: an
    operation maps the list of requests sent so far to a result and the longer list, and the network
    is an arbitrary function of that list.
  \<^item> \<open>internal/audit\<close> (\<open>Audit_Log\<close>): the event and the attributes it is logged with.
  \<^item> \<open>internal/server\<close> (\<open>Server\<close>, \<open>Server_Spec\<close>, \<open>Go_Fields\<close> for \<open>strings.Fields\<close> and
    \<open>strings.TrimSpace\<close>): the endpoint, the scope strings, the audit events and the routes. The minter threads a world, for the real one
    the list of requests; a handler returns its reply, audit events, log lines and the world.
  \<^item> \<open>cmd/gh-token-broker\<close> (\<open>Broker_Main\<close>, \<open>Broker_Serve\<close>): the start of the process from configuration
    to wired server; then its life as a step relation, in which the handlers of accepted requests send
    requests to GitHub, write their audit events and answer in any interleaving, until a signal or an
    error ends it. \<open>Mint_Replay\<close> makes the operations of \<open>Githubapp\<close> resumable for that: a handler
    between two requests to GitHub is replayed over the answers it has.
  \<^item> \<open>cmd/gen-schema\<close> (\<open>Schema_Gen\<close>): the generator of the JSON schema the loader validates a
    configuration against.

  \<open>Go_Prelude\<close> holds strings as byte lists, maps with an arbitrary iteration order, results as sums,
  and the collections \<open>result_iff\<close> (when a composed result is a success) and \<open>gm_simps\<close> (lookups in
  maps built by loops); \<open>Go_Time\<close> holds durations at 64 bits with wrap-around and saturation.

  \<^bold>\<open>Interfaces.\<close> Each is a locale, interpreted on the code's model where the provider stands.
  \<open>coverage\<close> and \<open>grant_join\<close> (in \<open>Perm\<close>): merging grants is a least upper bound for the coverage
  preorder; interpreted on \<open>mergePermissions\<close> and on the loop of \<open>AggregateGrantPermissions\<close>.
  \<open>authenticator\<close> (in \<open>Auth\<close>) and \<open>minter\<close> (in \<open>Githubapp\<close>): what the endpoint relies on, interpreted on
  \<open>Authenticate\<close> and \<open>Mint\<close>. \<open>token_endpoint\<close> (in \<open>Server_Spec\<close>) extends both and is interpreted on the
  server the broker wires.

  \<^bold>\<open>What is proved.\<close> The text before a property names its id. End to end (\<open>Broker_Main\<close>): an answered
  token implies a verified token of one configured issuer within its window, a policy of that issuer
  for every permission on every resource, and one token request with exactly the requested
  repositories and permissions; a started broker has an App sufficient for all grants. Over the whole
  life of a process (\<open>Broker_Serve\<close>): every token request ever sent is authorised by a request the engine
  allowed, and the audit log is ahead of the answers at every moment; \<open>exit_unaudited\<close> shows that the
  shutdown does not wait for running handlers; \<open>answer_uninterrupted\<close> is the refinement between the
  steps and the function \<open>Handler\<close>. The engine
  (\<open>Policy_Engine\<close>): the exact decision, its justification, independence of order, monotonicity,
  isolation of issuers, the aggregate of all grants as a ceiling (with what \<open>ValidateAppPermissions\<close>
  makes of it, in \<open>Broker_Main\<close>). The shape checks (\<open>Policy_Sound\<close>): accepted conditions hold for
  finitely many resources and pin the caller, and a caller-anchored resource is one of the caller's
  owner. Minting (\<open>Githubapp\<close>): what is sent, to which installation, and when it succeeds, for
  repositories, organizations and enterprises. Authentication and configuration: exactly what is
  accepted, bounds on time and size. Scope strings, resources, audit lines: round trips. The transport:
  the rate of key-set fetches, and that every request of the client returns whatever the server
  answers. The schema generator: the schema of a permission map accepts what \<open>checkPermissions\<close>
  accepts, closing the schema of structs adds exactly the rejection of undeclared members
  (\<open>no_undeclared\<close>), and extracting the definitions loses nothing.

  \<^bold>\<open>Bounds.\<close> No definition uses fuel: the loops of the program are recursions over its data, and the
  two that are not structural (\<open>constrains_by\<close> and the descendants of a syntax tree) have termination
  proofs. The redirect loop of the HTTP client is bounded by nothing but \<open>CheckRedirect\<close>; it is a
  partial function, and \<open>client_do_returns\<close> shows that it has a result. Durations are 64-bit; the
  window property shows that the limits of a valid configuration keep every intermediate duration in
  range.

  \<^bold>\<open>Parameters.\<close> Code that is not in the repository is an argument: URL parsing, the YAML decoder and the
  JSON-schema validator, JOSE parsing and signature verification, the provider library, the CEL
  compiler and evaluator (with the laws \<open>cel_laws\<close> of its documented operators where the meaning of a
  condition matters, and \<open>mini_eval\<close> as a function that satisfies them), the reflector of the schema
  generator (\<open>reflector_laws\<close>, with \<open>sample_reflect\<close>) and the meaning of JSON-schema keywords
  (\<open>schema_laws\<close>, with \<open>mini_ok\<close>), the network and the JSON decoders of GitHub's answers, media types and query strings, the file system and the environment.

  \<^bold>\<open>Not modelled.\<close> The text of error messages (errors are constructors with the values they print);
  log lines that carry no decision; encoding of JSON replies; request contexts, deadlines and
  cancellation (a handler runs to its end or until the process exits); finding the module root and
  writing the generated file (\<open>moduleRoot\<close>, the end of the generator's \<open>main\<close>); the embedded files of
  \<open>schema.go\<close>. \<open>net/http\<close> answers a path with empty or dot segments by a redirect to the cleaned
  path; \<open>Handler\<close> answers 404 for it, and neither runs code of the broker. The state of a key set
  inside \<open>go-oidc\<close> is part of the verifier, which is a function of the token; the fetches that change
  it are modelled apart, in \<open>Discovery\<close>.
\<close>

end
